theory Spec2Isabelle
  imports Main "HOL-Library.Finite_Map"
begin

section \<open>Go primitives used by package cache\<close>

text \<open>
  A \<open>time.Time\<close> is a point on one timeline, counted in nanoseconds from the zero
  \<open>Time\<close>; a \<open>time.Duration\<close> is a signed 64-bit count of nanoseconds.
  \<open>Time.Sub\<close> saturates at the largest and smallest \<open>Duration\<close>.
  \<open>time.Now()\<close> is an input of the operation that calls it.
\<close>

type_synonym Time = int
type_synonym Duration = int

definition maxDuration :: Duration where
  "maxDuration = 2 ^ 63 - 1"

definition minDuration :: Duration where
  "minDuration = - (2 ^ 63)"

definition Sub :: "Time \<Rightarrow> Time \<Rightarrow> Duration" where
  "Sub t u = (let d = t - u in
     if d > maxDuration then maxDuration
     else if d < minDuration then minDuration
     else d)"

text \<open>
  The key type \<open>K\<close> is any comparable type. Go's \<open>==\<close> on such a type need not be
  reflexive: a \<open>float64\<close> NaN, or a struct or array that holds one, is not equal to
  itself. A key is \<open>Key a\<close> when it is equal to itself (two such keys are equal in Go
  when they are the same value) and \<open>NaN a\<close> when it is not (then it is equal to no
  key). The zero value of a key type is equal to itself. A key of an interface type whose
  dynamic type cannot be compared makes the map operations panic; such keys are left out.
\<close>

datatype 'a key = Key 'a | NaN 'a

fun selfEq :: "'a key \<Rightarrow> bool" where
  "selfEq (Key a) = True"
| "selfEq (NaN a) = False"

definition goEq :: "'a key \<Rightarrow> 'a key \<Rightarrow> bool" where
  "goEq x y \<longleftrightarrow> x = y \<and> selfEq x"

definition zeroKey :: "('a::zero) key" where
  "zeroKey = Key 0"

text \<open>
  A Go map holds at most one entry for a key that is equal to itself, and any number of
  entries for keys that are not: an assignment at such a key always adds an entry, a
  lookup at it always misses and \<open>delete\<close> at it removes nothing. The entries of the
  first kind are a finite map, those of the second kind a list that only grows.
  \<open>len\<close> counts both.
\<close>

datatype ('a, 'v) gomap = GoMap (entries: "('a, 'v) fmap") (nanEntries: "('a \<times> 'v) list")

definition makeMap :: "('a, 'v) gomap" where
  "makeMap = GoMap fmempty []"

definition len :: "('a, 'v) gomap \<Rightarrow> nat" where
  "len mp = card (fmdom' (entries mp)) + length (nanEntries mp)"

fun mapLookup :: "('a, 'v) gomap \<Rightarrow> 'a key \<Rightarrow> 'v option" where
  "mapLookup mp (Key a) = fmlookup (entries mp) a"
| "mapLookup mp (NaN a) = None"

fun mapAssign :: "('a, 'v) gomap \<Rightarrow> 'a key \<Rightarrow> 'v \<Rightarrow> ('a, 'v) gomap" where
  "mapAssign mp (Key a) v = GoMap (fmupd a v (entries mp)) (nanEntries mp)"
| "mapAssign mp (NaN a) v = GoMap (entries mp) (nanEntries mp @ [(a, v)])"

fun mapDelete :: "('a, 'v) gomap \<Rightarrow> 'a key \<Rightarrow> ('a, 'v) gomap" where
  "mapDelete mp (Key a) = GoMap (fmdrop a (entries mp)) (nanEntries mp)"
| "mapDelete mp (NaN a) = mp"

text \<open>The keys that have an entry in a map.\<close>

definition keysOf :: "('a, 'v) gomap \<Rightarrow> 'a key set" where
  "keysOf mp = Key ` fmdom' (entries mp) \<union> NaN ` fst ` set (nanEntries mp)"

section \<open>caches.go: the recency index\<close>

datatype error = IncorrectlySpecified

text \<open>
  The field \<open>m\<close> of \<open>cacheTimeMap\<close> is \<open>m_ctm\<close>, its field \<open>last\<close> is
  \<open>last_ctm\<close>; the field \<open>m\<close> of the caches is \<open>m_cache\<close>.
\<close>

record 'k cacheKey =
  prev :: 'k
  "next" :: 'k
  timestamp :: Time

record 'a cacheTimeMap =
  m_ctm :: "('a, 'a key cacheKey) gomap"
  first :: "'a key"
  last_ctm :: "'a key"

text \<open>Reading a Go map at a key that misses gives the zero value of the element type.\<close>

definition zeroCacheKey :: "('a::zero) key cacheKey" where
  "zeroCacheKey = \<lparr>prev = zeroKey, next = zeroKey, timestamp = 0\<rparr>"

definition getKey :: "('a, 'a key cacheKey) gomap \<Rightarrow> 'a key \<Rightarrow> ('a::zero) key cacheKey" where
  "getKey mp k = (case mapLookup mp k of None \<Rightarrow> zeroCacheKey | Some e \<Rightarrow> e)"

text \<open>The same read on the entries whose keys are equal to themselves.\<close>

definition getEntry :: "('a, 'a key cacheKey) fmap \<Rightarrow> 'a \<Rightarrow> ('a::zero) key cacheKey" where
  "getEntry es a = (case fmlookup es a of None \<Rightarrow> zeroCacheKey | Some e \<Rightarrow> e)"

definition newCacheTimeMap :: "'a key \<Rightarrow> ('a::zero) cacheTimeMap" where
  "newCacheTimeMap k = \<lparr>m_ctm = makeMap, first = zeroKey, last_ctm = zeroKey\<rparr>"

definition updateTimeMap :: "('a::zero) cacheTimeMap \<Rightarrow> 'a key \<Rightarrow> Time \<Rightarrow> 'a cacheTimeMap" where
  "updateTimeMap ctm k t =
    (if len (m_ctm ctm) = 0 then
       \<lparr>m_ctm = mapAssign (m_ctm ctm) k \<lparr>prev = k, next = k, timestamp = t\<rparr>,
        first = k, last_ctm = k\<rparr>
     else
       case mapLookup (m_ctm ctm) k of
         None \<Rightarrow>
           (let entry = \<lparr>prev = k, next = first ctm, timestamp = t\<rparr>;
                first0 = (getKey (m_ctm ctm) (first ctm))\<lparr>prev := k\<rparr>;
                m1 = mapAssign (m_ctm ctm) (first ctm) first0;
                m2 = mapAssign m1 k entry
            in \<lparr>m_ctm = m2, first = k, last_ctm = last_ctm ctm\<rparr>)
       | Some entry \<Rightarrow>
           if goEq (first ctm) k then
             ctm\<lparr>m_ctm := mapAssign (m_ctm ctm) k (entry\<lparr>timestamp := t\<rparr>)\<rparr>
           else if goEq (last_ctm ctm) k then
             (let newLastKey = prev entry;
                  entry1 = \<lparr>prev = k, next = first ctm, timestamp = t\<rparr>;
                  oldFirst = (getKey (m_ctm ctm) (first ctm))\<lparr>prev := k\<rparr>;
                  m1 = mapAssign (m_ctm ctm) (first ctm) oldFirst;
                  m2 = mapAssign m1 k entry1;
                  newLast = (getKey m2 newLastKey)\<lparr>next := newLastKey\<rparr>;
                  m3 = mapAssign m2 newLastKey newLast
              in \<lparr>m_ctm = m3, first = k, last_ctm = newLastKey\<rparr>)
           else
             (let oldPrev = getKey (m_ctm ctm) (prev entry);
                  oldNext = getKey (m_ctm ctm) (next entry);
                  oldNext1 = oldNext\<lparr>prev := prev entry\<rparr>;
                  oldPrev1 = oldPrev\<lparr>next := next entry\<rparr>;
                  m1 = mapAssign (m_ctm ctm) (prev entry) oldPrev1;
                  m2 = mapAssign m1 (next entry) oldNext1;
                  entry1 = \<lparr>prev = k, next = first ctm, timestamp = t\<rparr>;
                  oldFirst = (getKey m2 (first ctm))\<lparr>prev := k\<rparr>;
                  m3 = mapAssign m2 (first ctm) oldFirst;
                  m4 = mapAssign m3 k entry1
              in \<lparr>m_ctm = m4, first = k, last_ctm = last_ctm ctm\<rparr>))"

definition removeOldest :: "('a::zero) cacheTimeMap \<Rightarrow> 'a key \<times> 'a cacheTimeMap" where
  "removeOldest ctm =
    (if len (m_ctm ctm) = 0 then
       (zeroKey, ctm\<lparr>first := zeroKey, last_ctm := zeroKey\<rparr>)
     else
       (let oldest = last_ctm ctm;
            oldEntry = getKey (m_ctm ctm) oldest;
            newOldest = prev oldEntry;
            newOldEntry = (getKey (m_ctm ctm) newOldest)\<lparr>next := newOldest\<rparr>;
            m1 = mapAssign (m_ctm ctm) newOldest newOldEntry;
            m2 = mapDelete m1 oldest
        in if len m2 = 0
           then (oldest, \<lparr>m_ctm = m2, first = zeroKey, last_ctm = zeroKey\<rparr>)
           else (oldest, \<lparr>m_ctm = m2, first = first ctm, last_ctm = newOldest\<rparr>)))"

definition sinceOldest :: "('a::zero) cacheTimeMap \<Rightarrow> Time \<Rightarrow> Duration" where
  "sinceOldest ctm now =
    (if len (m_ctm ctm) = 0 then 0
     else Sub now (timestamp (getKey (m_ctm ctm) (last_ctm ctm))))"

section \<open>The two caches\<close>

text \<open>
  \<open>LRU\<close> (read-touches) and \<open>LRW\<close> (write-only-touches) are declared with the
  same four data fields; one record stands for both. The mutex is left out: every
  operation holds it from entry to return, so operations on one cache are sequential.
  The key and value passed to the constructors only fix the types. A loop that does not
  end makes its operation return \<open>None\<close>.
\<close>

record ('a, 'v) cache =
  m_cache :: "('a, 'v) gomap"
  keys :: "'a cacheTimeMap"
  maxSize :: int
  maxAge :: Duration

type_synonym ('a, 'v) LRU = "('a, 'v) cache"
type_synonym ('a, 'v) LRW = "('a, 'v) cache"

subsection \<open>The LRU cache\<close>

definition NewLRUCache :: "'a key \<Rightarrow> 'v \<Rightarrow> int \<Rightarrow> Duration \<Rightarrow> error + ('a::zero, 'v) LRU" where
  "NewLRUCache k v maxSize0 maxAge0 =
    (if maxSize0 < 1 \<and> maxAge0 = 0 then Inl IncorrectlySpecified
     else Inr \<lparr>m_cache = makeMap, keys = newCacheTimeMap k,
               maxSize = maxSize0, maxAge = maxAge0\<rparr>)"

text \<open>The first loop of \<open>lruAge\<close>: drop the oldest key while it is too old.\<close>

partial_function (option) lruAge_byAge :: "('a::zero, 'v) LRU \<Rightarrow> Time \<Rightarrow> ('a, 'v) LRU option" where
  "lruAge_byAge lru now =
    (let since = sinceOldest (keys lru) now in
     if since < maxAge lru then Some lru
     else
       (let r = removeOldest (keys lru);
            lru1 = lru\<lparr>keys := snd r, m_cache := mapDelete (m_cache lru) (fst r)\<rparr>
        in if len (m_cache lru1) = 0 then Some lru1 else lruAge_byAge lru1 now))"

declare lruAge_byAge.simps [code]

text \<open>The second loop of \<open>lruAge\<close>: drop the oldest key while there are too many values.\<close>

partial_function (option) lruAge_bySize :: "('a::zero, 'v) LRU \<Rightarrow> ('a, 'v) LRU option" where
  "lruAge_bySize lru =
    (if int (len (m_cache lru)) > maxSize lru then
       (let r = removeOldest (keys lru)
        in lruAge_bySize (lru\<lparr>keys := snd r, m_cache := mapDelete (m_cache lru) (fst r)\<rparr>))
     else Some lru)"

declare lruAge_bySize.simps [code]

definition lruAge :: "('a::zero, 'v) LRU \<Rightarrow> Time \<Rightarrow> ('a, 'v) LRU option" where
  "lruAge lru now =
    (case (if maxAge lru > 0 then lruAge_byAge lru now else Some lru) of
       None \<Rightarrow> None
     | Some lru1 \<Rightarrow> if maxSize lru1 > 0 then lruAge_bySize lru1 else Some lru1)"

definition SetLRU :: "('a::zero, 'v) LRU \<Rightarrow> 'a key \<Rightarrow> 'v \<Rightarrow> Time \<Rightarrow> ('a, 'v) LRU option" where
  "SetLRU lru k v now =
    (let lru1 = lru\<lparr>m_cache := mapAssign (m_cache lru) k v\<rparr>;
         lru2 = lru1\<lparr>keys := updateTimeMap (keys lru1) k now\<rparr>
     in lruAge lru2 now)"

definition GetLRU :: "('a::zero, 'v::zero) LRU \<Rightarrow> 'a key \<Rightarrow> Time \<Rightarrow> ('v \<times> bool) \<times> ('a, 'v) LRU" where
  "GetLRU lru k now =
    (let lru1 = lru\<lparr>keys := updateTimeMap (keys lru) k now\<rparr>
     in (case mapLookup (m_cache lru1) k of
           None \<Rightarrow> (0, False)
         | Some rv \<Rightarrow> (rv, True),
         lru1))"

subsection \<open>The LRW cache\<close>

definition NewLRWCache :: "'a key \<Rightarrow> 'v \<Rightarrow> int \<Rightarrow> Duration \<Rightarrow> error + ('a::zero, 'v) LRW" where
  "NewLRWCache k v maxSize0 maxAge0 =
    (if maxSize0 < 1 \<and> maxAge0 = 0 then Inl IncorrectlySpecified
     else Inr \<lparr>m_cache = makeMap, keys = newCacheTimeMap k,
               maxSize = maxSize0, maxAge = maxAge0\<rparr>)"

partial_function (option) lrwAge_byAge :: "('a::zero, 'v) LRW \<Rightarrow> Time \<Rightarrow> ('a, 'v) LRW option" where
  "lrwAge_byAge lrw now =
    (let since = sinceOldest (keys lrw) now in
     if since < maxAge lrw then Some lrw
     else
       (let r = removeOldest (keys lrw);
            lrw1 = lrw\<lparr>keys := snd r, m_cache := mapDelete (m_cache lrw) (fst r)\<rparr>
        in if len (m_cache lrw1) = 0 then Some lrw1 else lrwAge_byAge lrw1 now))"

declare lrwAge_byAge.simps [code]

partial_function (option) lrwAge_bySize :: "('a::zero, 'v) LRW \<Rightarrow> ('a, 'v) LRW option" where
  "lrwAge_bySize lrw =
    (if int (len (m_cache lrw)) > maxSize lrw then
       (let r = removeOldest (keys lrw)
        in lrwAge_bySize (lrw\<lparr>keys := snd r, m_cache := mapDelete (m_cache lrw) (fst r)\<rparr>))
     else Some lrw)"

declare lrwAge_bySize.simps [code]

definition lrwAge :: "('a::zero, 'v) LRW \<Rightarrow> Time \<Rightarrow> ('a, 'v) LRW option" where
  "lrwAge lrw now =
    (case (if maxAge lrw > 0 then lrwAge_byAge lrw now else Some lrw) of
       None \<Rightarrow> None
     | Some lrw1 \<Rightarrow> if maxSize lrw1 > 0 then lrwAge_bySize lrw1 else Some lrw1)"

definition SetLRW :: "('a::zero, 'v) LRW \<Rightarrow> 'a key \<Rightarrow> 'v \<Rightarrow> Time \<Rightarrow> ('a, 'v) LRW option" where
  "SetLRW lrw k v now =
    (let lrw1 = lrw\<lparr>m_cache := mapAssign (m_cache lrw) k v\<rparr>;
         lrw2 = lrw1\<lparr>keys := updateTimeMap (keys lrw1) k now\<rparr>
     in lrwAge lrw2 now)"

definition GetLRW :: "('a::zero, 'v::zero) LRW \<Rightarrow> 'a key \<Rightarrow> ('v \<times> bool) \<times> ('a, 'v) LRW" where
  "GetLRW lrw k =
    (case mapLookup (m_cache lrw) k of
       None \<Rightarrow> (0, False)
     | Some rv \<Rightarrow> (rv, True),
     lrw)"

section \<open>The recency list behind a well-formed index\<close>

text \<open>
  \<open>adj ks\<close> is the set of neighbouring pairs of the list \<open>ks\<close>. An index is
  well formed for the list \<open>ks\<close> of its keys, most recent first, when all its keys
  are equal to themselves (they are \<open>Key a\<close> for the \<open>a\<close> of the list), the keys are
  distinct, the map holds exactly these keys, neighbours point at each other, the head's
  \<open>prev\<close> and the tail's \<open>next\<close> point at themselves, and \<open>first\<close> and
  \<open>last\<close> are the ends of the list (the zero key when it is empty).
\<close>

definition adj :: "'a list \<Rightarrow> ('a \<times> 'a) set" where
  "adj ks = set (zip ks (tl ks))"

definition linked :: "('a::zero, 'a key cacheKey) gomap \<Rightarrow> 'a list \<Rightarrow> bool" where
  "linked mp ks \<longleftrightarrow>
     (\<forall>(a, b) \<in> adj ks. next (getKey mp (Key a)) = Key b \<and> prev (getKey mp (Key b)) = Key a) \<and>
     (ks \<noteq> [] \<longrightarrow> prev (getKey mp (Key (hd ks))) = Key (hd ks)
                \<and> next (getKey mp (Key (last ks))) = Key (last ks))"

definition ctm_inv :: "('a::zero) cacheTimeMap \<Rightarrow> 'a list \<Rightarrow> bool" where
  "ctm_inv ctm ks \<longleftrightarrow>
     distinct ks \<and> fmdom' (entries (m_ctm ctm)) = set ks \<and> nanEntries (m_ctm ctm) = [] \<and>
     linked (m_ctm ctm) ks \<and>
     first ctm = (if ks = [] then zeroKey else Key (hd ks)) \<and>
     last_ctm ctm = (if ks = [] then zeroKey else Key (last ks))"

text \<open>
  The body shared by the loops of \<open>lruAge\<close> and \<open>lrwAge\<close>:
  \<open>drop := removeOldest(keys); delete(m, drop)\<close>.
\<close>

definition evictStep :: "('a::zero, 'v) cache \<Rightarrow> ('a, 'v) cache" where
  "evictStep c =
    (let r = removeOldest (keys c)
     in c\<lparr>keys := snd r, m_cache := mapDelete (m_cache c) (fst r)\<rparr>)"

text \<open>
  In an LRU cache whose keys are all equal to themselves every key with a value is in
  the index; in such an LRW cache the index holds exactly the keys with a value.
\<close>

definition lru_inv :: "('a::zero, 'v) cache \<Rightarrow> 'a list \<Rightarrow> bool" where
  "lru_inv c ks \<longleftrightarrow>
     ctm_inv (keys c) ks \<and> fmdom' (entries (m_cache c)) \<subseteq> set ks \<and> nanEntries (m_cache c) = []"

definition lrw_inv :: "('a::zero, 'v) cache \<Rightarrow> 'a list \<Rightarrow> bool" where
  "lrw_inv c ks \<longleftrightarrow>
     ctm_inv (keys c) ks \<and> fmdom' (entries (m_cache c)) = set ks \<and> nanEntries (m_cache c) = []"

section \<open>Walking the index and reachable states\<close>

text \<open>
  \<open>towardTail\<close> walks the index from \<open>first\<close> along the \<open>next\<close> fields and
  lists the keys it visits. The walk ends at a key whose \<open>next\<close> is equal to the key
  or at a key whose lookup misses; it takes at most one step more than the map has
  entries.
\<close>

fun walk :: "('a::zero, 'a key cacheKey) gomap \<Rightarrow> 'a key \<Rightarrow> nat \<Rightarrow> 'a key list" where
  "walk mp k 0 = []"
| "walk mp k (Suc n) =
     (case mapLookup mp k of
        None \<Rightarrow> []
      | Some e \<Rightarrow> if goEq (next e) k then [k] else k # walk mp (next e) n)"

definition towardTail :: "('a::zero) cacheTimeMap \<Rightarrow> 'a key list" where
  "towardTail ctm = walk (m_ctm ctm) (first ctm) (Suc (len (m_ctm ctm)))"

text \<open>
  The states of an index reached from \<open>newCacheTimeMap\<close> by \<open>updateTimeMap\<close> at keys
  that satisfy \<open>P\<close> and by \<open>removeOldest\<close>, and the states of a cache reached from
  its constructor, called with \<open>maxSize\<close> and \<open>maxAge\<close>, by \<open>Set\<close> and \<open>Get\<close> at
  keys that satisfy \<open>P\<close> and at any times. With \<open>anyKey\<close> for \<open>P\<close> these are all
  reachable states, with \<open>selfEq\<close> those in which no key unequal to itself was used.
\<close>

definition anyKey :: "'a key \<Rightarrow> bool" where
  "anyKey k = True"

inductive ctm_reachable :: "('a key \<Rightarrow> bool) \<Rightarrow> ('a::zero) cacheTimeMap \<Rightarrow> bool" where
  ctm_new: "ctm_reachable P (newCacheTimeMap k)"
| ctm_touch: "ctm_reachable P ctm \<Longrightarrow> P k \<Longrightarrow> ctm_reachable P (updateTimeMap ctm k t)"
| ctm_evict: "ctm_reachable P ctm \<Longrightarrow> ctm_reachable P (snd (removeOldest ctm))"

inductive lru_reachable ::
  "('a key \<Rightarrow> bool) \<Rightarrow> int \<Rightarrow> Duration \<Rightarrow> ('a::zero, 'v::zero) LRU \<Rightarrow> bool" where
  lru_new: "NewLRUCache k v sz age = Inr c \<Longrightarrow> lru_reachable P sz age c"
| lru_set: "lru_reachable P sz age c \<Longrightarrow> P k \<Longrightarrow> SetLRU c k v now = Some c'
            \<Longrightarrow> lru_reachable P sz age c'"
| lru_get: "lru_reachable P sz age c \<Longrightarrow> P k \<Longrightarrow> lru_reachable P sz age (snd (GetLRU c k now))"

inductive lrw_reachable ::
  "('a key \<Rightarrow> bool) \<Rightarrow> int \<Rightarrow> Duration \<Rightarrow> ('a::zero, 'v::zero) LRW \<Rightarrow> bool" where
  lrw_new: "NewLRWCache k v sz age = Inr c \<Longrightarrow> lrw_reachable P sz age c"
| lrw_set: "lrw_reachable P sz age c \<Longrightarrow> P k \<Longrightarrow> SetLRW c k v now = Some c'
            \<Longrightarrow> lrw_reachable P sz age c'"
| lrw_get: "lrw_reachable P sz age c \<Longrightarrow> P k \<Longrightarrow> lrw_reachable P sz age (snd (GetLRW c k))"

text \<open>
  Runs over keys equal to themselves in which the times passed to \<open>Set\<close> and \<open>Get\<close>
  never decrease: the third argument is the time of the latest call. Along the recency
  list of such a run the timestamps never increase from head to tail.
\<close>

inductive lru_run :: "int \<Rightarrow> Duration \<Rightarrow> Time \<Rightarrow> ('a::zero, 'v::zero) LRU \<Rightarrow> bool" where
  lru_run_new: "NewLRUCache k v sz age = Inr c \<Longrightarrow> lru_run sz age T c"
| lru_run_set: "lru_run sz age T c \<Longrightarrow> T \<le> now \<Longrightarrow> SetLRU c (Key a) v now = Some c'
                \<Longrightarrow> lru_run sz age now c'"
| lru_run_get: "lru_run sz age T c \<Longrightarrow> T \<le> now
                \<Longrightarrow> lru_run sz age now (snd (GetLRU c (Key a) now))"

inductive lrw_run :: "int \<Rightarrow> Duration \<Rightarrow> Time \<Rightarrow> ('a::zero, 'v::zero) LRW \<Rightarrow> bool" where
  lrw_run_new: "NewLRWCache k v sz age = Inr c \<Longrightarrow> lrw_run sz age T c"
| lrw_run_set: "lrw_run sz age T c \<Longrightarrow> T \<le> now \<Longrightarrow> SetLRW c (Key a) v now = Some c'
                \<Longrightarrow> lrw_run sz age now c'"
| lrw_run_get: "lrw_run sz age T c \<Longrightarrow> T \<le> now \<Longrightarrow> lrw_run sz age now (snd (GetLRW c (Key a)))"

definition ts_sorted :: "('a::zero) cacheTimeMap \<Rightarrow> 'a list \<Rightarrow> Time \<Rightarrow> bool" where
  "ts_sorted ctm ks T \<longleftrightarrow>
     sorted_wrt (\<lambda>a b. timestamp (getKey (m_ctm ctm) (Key b))
                      \<le> timestamp (getKey (m_ctm ctm) (Key a))) ks
     \<and> (\<forall>x\<in>set ks. timestamp (getKey (m_ctm ctm) (Key x)) \<le> T)"

section \<open>Lemmas on keys and maps\<close>

lemma goEq_simps [simp]:
  "goEq (Key a) (Key b) \<longleftrightarrow> a = b"
  "goEq (NaN a) y \<longleftrightarrow> False"
  "goEq x (NaN b) \<longleftrightarrow> False"
  by (cases x; auto simp: goEq_def)+

lemma goEq_iff: "goEq x y \<longleftrightarrow> (\<exists>a. x = Key a \<and> y = Key a)"
  by (cases x; cases y) auto

lemma selfEq_iff: "selfEq k \<longleftrightarrow> (\<exists>a. k = Key a)"
  by (cases k) auto

lemma getKey_Key [simp]: "getKey mp (Key x) = getEntry (entries mp) x"
  by (simp add: getKey_def getEntry_def)

lemma getEntry_upd [simp]:
  "getEntry (fmupd a e es) x = (if a = x then e else getEntry es x)"
  by (simp add: getEntry_def)

lemma getEntry_drop [simp]:
  "getEntry (fmdrop a es) x = (if a = x then zeroCacheKey else getEntry es x)"
  by (simp add: getEntry_def)

lemma getEntry_empty [simp]: "getEntry fmempty x = zeroCacheKey"
  by (simp add: getEntry_def)

lemma getKey_nan [simp]: "getKey mp (NaN a) = zeroCacheKey"
  by (simp add: getKey_def)

lemma getEntry_Some: "fmlookup es x = Some e \<Longrightarrow> getEntry es x = e"
  by (simp add: getEntry_def)

lemma getKey_Some: "fmlookup (entries mp) x = Some e \<Longrightarrow> getKey mp (Key x) = e"
  by (simp add: getEntry_def)

lemma len_0 [simp]: "len mp = 0 \<longleftrightarrow> fmdom' (entries mp) = {} \<and> nanEntries mp = []"
  by (simp add: len_def)

lemma len_makeMap [simp]: "len makeMap = 0" "entries makeMap = fmempty" "nanEntries makeMap = []"
  by (simp_all add: makeMap_def)

lemma keysOf_Key [simp]: "Key a \<in> keysOf mp \<longleftrightarrow> a \<in> fmdom' (entries mp)"
  by (auto simp: keysOf_def)

lemma keysOf_NaN [simp]: "NaN a \<in> keysOf mp \<longleftrightarrow> a \<in> fst ` set (nanEntries mp)"
  by (auto simp: keysOf_def)

section \<open>Lemmas on the recency index\<close>

lemma set_butlast_last: "ks \<noteq> [] \<Longrightarrow> set ks = insert (last ks) (set (butlast ks))"
  by (cases ks rule: rev_cases) auto

lemma last_notin_butlast: "distinct ks \<Longrightarrow> ks \<noteq> [] \<Longrightarrow> last ks \<notin> set (butlast ks)"
  by (cases ks rule: rev_cases) auto

lemma adj_Nil [simp]: "adj [] = {}" by (simp add: adj_def)
lemma adj_single [simp]: "adj [x] = {}" by (simp add: adj_def)
lemma adj_Cons: "adj (x # xs) = (if xs = [] then {} else insert (x, hd xs) (adj xs))"
  by (cases xs) (simp_all add: adj_def)
lemma adj_append: "adj (xs @ ys) = adj xs \<union> adj ys \<union> (if xs = [] \<or> ys = [] then {} else {(last xs, hd ys)})"
  by (induction xs) (auto simp: adj_Cons)
lemma adj_in: "(a, b) \<in> adj xs \<Longrightarrow> a \<in> set xs \<and> b \<in> set xs"
  by (induction xs) (auto simp: adj_Cons split: if_splits)
lemma adj_distinct: "distinct xs \<Longrightarrow> (a, b) \<in> adj xs \<Longrightarrow> a \<noteq> last xs \<and> b \<noteq> hd xs \<and> a \<noteq> b"
  by (induction xs) (auto simp: adj_Cons split: if_splits dest: adj_in)

lemma linkedD:
  "linked mp ks \<Longrightarrow> (a, b) \<in> adj ks
   \<Longrightarrow> next (getEntry (entries mp) a) = Key b \<and> prev (getEntry (entries mp) b) = Key a"
  by (auto simp: linked_def)

lemma linked_hd: "linked mp ks \<Longrightarrow> ks \<noteq> [] \<Longrightarrow> prev (getEntry (entries mp) (hd ks)) = Key (hd ks)"
  by (simp add: linked_def)

lemma linked_last: "linked mp ks \<Longrightarrow> ks \<noteq> [] \<Longrightarrow> next (getEntry (entries mp) (last ks)) = Key (last ks)"
  by (simp add: linked_def)

lemma linkedI:
  assumes "\<And>a b. (a, b) \<in> adj ks
             \<Longrightarrow> next (getEntry (entries mp) a) = Key b \<and> prev (getEntry (entries mp) b) = Key a"
    and "ks \<noteq> [] \<Longrightarrow> prev (getEntry (entries mp) (hd ks)) = Key (hd ks)"
    and "ks \<noteq> [] \<Longrightarrow> next (getEntry (entries mp) (last ks)) = Key (last ks)"
  shows "linked mp ks"
  using assms by (auto simp: linked_def)

lemma ctm_inv_Nil: "ctm_inv ctm [] \<Longrightarrow> len (m_ctm ctm) = 0"
  by (simp add: ctm_inv_def)

lemma ctm_inv_nonempty: "ctm_inv ctm ks \<Longrightarrow> ks \<noteq> [] \<Longrightarrow> len (m_ctm ctm) \<noteq> 0"
  by (auto simp: ctm_inv_def)

lemma ctm_inv_map: "ctm_inv ctm ks \<Longrightarrow> m_ctm ctm = GoMap (entries (m_ctm ctm)) []"
  by (cases "m_ctm ctm") (simp add: ctm_inv_def)

lemma update_empty:
  assumes "ctm_inv ctm []"
  shows "ctm_inv (updateTimeMap ctm (Key k) t) [k]"
  using assms by (simp add: updateTimeMap_def ctm_inv_def linked_def)

lemma update_new:
  assumes "ctm_inv ctm ks" "ks \<noteq> []" "k \<notin> set ks"
  shows "ctm_inv (updateTimeMap ctm (Key k) t) (k # ks)"
proof -
  have none: "fmlookup (entries (m_ctm ctm)) k = None"
    using assms by (auto simp: ctm_inv_def)
  have ne: "fmdom' (entries (m_ctm ctm)) \<noteq> {}" using assms by (auto simp: ctm_inv_def)
  have ns: "nanEntries (m_ctm ctm) = []" using assms by (auto simp: ctm_inv_def)
  have f: "first ctm = Key (hd ks)" "hd ks \<in> set ks" using assms by (auto simp: ctm_inv_def)
  show ?thesis
    using assms f
    apply (simp add: updateTimeMap_def none ne Let_def)
    apply (auto simp: ctm_inv_def linked_def adj_Cons dest: adj_in adj_distinct)
    done
qed

lemma update_first:
  assumes "ctm_inv ctm (k # ks)"
  shows "ctm_inv (updateTimeMap ctm (Key k) t) (k # ks)"
proof -
  have "k \<in> fmdom' (entries (m_ctm ctm))" using assms by (simp add: ctm_inv_def)
  then obtain e where e: "fmlookup (entries (m_ctm ctm)) k = Some e"
    by (auto simp: fmlookup_dom'_iff)
  have ne: "fmdom' (entries (m_ctm ctm)) \<noteq> {}" using assms by (auto simp: ctm_inv_def)
  have f: "first ctm = Key k" using assms by (simp add: ctm_inv_def)
  have g: "getEntry (entries (m_ctm ctm)) k = e" using e by (rule getEntry_Some)
  have upd: "updateTimeMap ctm (Key k) t
             = ctm\<lparr>m_ctm := mapAssign (m_ctm ctm) (Key k) (e\<lparr>timestamp := t\<rparr>)\<rparr>"
    by (simp add: updateTimeMap_def e ne f)
  show ?thesis
    using assms g unfolding upd
    by (auto simp: ctm_inv_def linked_def adj_Cons dest: adj_in adj_distinct)
qed

lemma update_last:
  assumes "ctm_inv ctm (xs @ [k])" "xs \<noteq> []"
  shows "ctm_inv (updateTimeMap ctm (Key k) t) (k # xs)"
proof -
  let ?m = "m_ctm ctm"
  have "k \<in> fmdom' (entries ?m)" using assms by (simp add: ctm_inv_def)
  then obtain e where e: "fmlookup (entries ?m) k = Some e"
    by (auto simp: fmlookup_dom'_iff)
  have g: "getEntry (entries ?m) k = e" using e by (rule getEntry_Some)
  have ne: "fmdom' (entries ?m) \<noteq> {}" using assms by (auto simp: ctm_inv_def)
  have ns: "nanEntries ?m = []" using assms by (auto simp: ctm_inv_def)
  have d: "distinct xs" "k \<notin> set xs" "hd xs \<in> set xs" "last xs \<in> set xs"
    using assms by (auto simp: ctm_inv_def)
  have f: "first ctm = Key (hd xs)" "last_ctm ctm = Key k"
    using assms by (auto simp: ctm_inv_def)
  have fk: "hd xs \<noteq> k" "last xs \<noteq> k" using d by auto
  have lk: "linked ?m (xs @ [k])" using assms by (simp add: ctm_inv_def)
  have p: "prev e = Key (last xs)"
    using linkedD[OF lk, of "last xs" k] g assms(2) by (simp add: adj_append)
  define m' where "m' = m_ctm (updateTimeMap ctm (Key k) t)"
  have upd: "updateTimeMap ctm (Key k) t = \<lparr>m_ctm = m', first = Key k, last_ctm = Key (last xs)\<rparr>"
    unfolding m'_def using fk by (simp add: updateTimeMap_def e ne f p Let_def)
  have dom: "fmdom' (entries m') = insert k (set xs)" "nanEntries m' = []"
    unfolding m'_def using fk d assms(1)
    by (auto simp: updateTimeMap_def e ne f p Let_def ctm_inv_def)
  have N: "next (getEntry (entries m') x) = (if x = k then Key (hd xs) else if x = last xs then Key (last xs) else next (getEntry (entries ?m) x))" for x
    unfolding m'_def using fk by (simp add: updateTimeMap_def e ne f p Let_def)
  have P: "prev (getEntry (entries m') x) = (if x = k \<or> x = hd xs then Key k else prev (getEntry (entries ?m) x))" for x
    unfolding m'_def using fk by (simp add: updateTimeMap_def e ne f p Let_def)
  have old: "(a, b) \<in> adj xs \<Longrightarrow> next (getEntry (entries ?m) a) = Key b \<and> prev (getEntry (entries ?m) b) = Key a" for a b
    using linkedD[OF lk, of a b] by (simp add: adj_append)
  have hd0: "prev (getEntry (entries ?m) (hd xs)) = Key (hd xs)"
    using linked_hd[OF lk] assms(2) by simp
  have new: "(a, b) \<in> adj xs \<Longrightarrow> next (getEntry (entries m') a) = Key b \<and> prev (getEntry (entries m') b) = Key a" for a b
    using old[of a b] adj_in[of a b xs] adj_distinct[of xs a b] d by (auto simp: N P)
  have "linked m' (k # xs)"
  proof (rule linkedI)
    fix a b assume "(a, b) \<in> adj (k # xs)"
    then show "next (getEntry (entries m') a) = Key b \<and> prev (getEntry (entries m') b) = Key a"
      using new[of a b] assms(2) by (auto simp: adj_Cons N P)
  next
    show "prev (getEntry (entries m') (hd (k # xs))) = Key (hd (k # xs))" by (simp add: P)
  next
    show "next (getEntry (entries m') (last (k # xs))) = Key (last (k # xs))"
      using assms(2) fk by (simp add: N)
  qed
  then show ?thesis
    unfolding upd using d assms(2) dom by (simp add: ctm_inv_def)
qed

lemma update_mid:
  assumes "ctm_inv ctm (xs @ k # ys)" "xs \<noteq> []" "ys \<noteq> []"
  shows "ctm_inv (updateTimeMap ctm (Key k) t) (k # xs @ ys)"
proof -
  let ?m = "m_ctm ctm"
  have "k \<in> fmdom' (entries ?m)" using assms by (simp add: ctm_inv_def)
  then obtain e where e: "fmlookup (entries ?m) k = Some e"
    by (auto simp: fmlookup_dom'_iff)
  have g: "getEntry (entries ?m) k = e" using e by (rule getEntry_Some)
  have ne: "fmdom' (entries ?m) \<noteq> {}" using assms by (auto simp: ctm_inv_def)
  have ns: "nanEntries ?m = []" using assms by (auto simp: ctm_inv_def)
  have d: "distinct xs" "distinct ys" "k \<notin> set xs" "k \<notin> set ys" "set xs \<inter> set ys = {}"
     "hd xs \<in> set xs" "last xs \<in> set xs" "hd ys \<in> set ys" "last ys \<in> set ys"
    using assms by (auto simp: ctm_inv_def)
  have f: "first ctm = Key (hd xs)" "last_ctm ctm = Key (last ys)"
    using assms by (auto simp: ctm_inv_def)
  have fk: "hd xs \<noteq> k" "last xs \<noteq> k" "hd ys \<noteq> k" "last ys \<noteq> k"
    "hd ys \<noteq> hd xs" "hd ys \<noteq> last xs" "last ys \<noteq> hd xs" "last ys \<noteq> last xs"
    using d by auto
  have lk: "linked ?m (xs @ k # ys)" using assms by (simp add: ctm_inv_def)
  have p: "prev e = Key (last xs)" "next e = Key (hd ys)"
    using linkedD[OF lk, of "last xs" k] linkedD[OF lk, of k "hd ys"] g assms(2,3)
    by (simp_all add: adj_append adj_Cons)
  define m' where "m' = m_ctm (updateTimeMap ctm (Key k) t)"
  have upd: "updateTimeMap ctm (Key k) t = \<lparr>m_ctm = m', first = Key k, last_ctm = Key (last ys)\<rparr>"
    unfolding m'_def using fk by (simp add: updateTimeMap_def e ne f p Let_def)
  have dom: "fmdom' (entries m') = insert k (set xs \<union> set ys)" "nanEntries m' = []"
    unfolding m'_def using fk d assms(1)
    by (auto simp: updateTimeMap_def e ne f p Let_def ctm_inv_def)
  have N: "next (getEntry (entries m') x) = (if x = k then Key (hd xs) else if x = last xs then Key (hd ys) else next (getEntry (entries ?m) x))" for x
    unfolding m'_def using fk by (simp add: updateTimeMap_def e ne f p Let_def)
  have P: "prev (getEntry (entries m') x) = (if x = k \<or> x = hd xs then Key k else if x = hd ys then Key (last xs) else prev (getEntry (entries ?m) x))" for x
    unfolding m'_def using fk by (simp add: updateTimeMap_def e ne f p Let_def)
  have oldx: "(a, b) \<in> adj xs \<Longrightarrow> next (getEntry (entries ?m) a) = Key b \<and> prev (getEntry (entries ?m) b) = Key a" for a b
    using linkedD[OF lk, of a b] by (simp add: adj_append)
  have oldy: "(a, b) \<in> adj ys \<Longrightarrow> next (getEntry (entries ?m) a) = Key b \<and> prev (getEntry (entries ?m) b) = Key a" for a b
    using linkedD[OF lk, of a b] by (simp add: adj_append adj_Cons assms(3))
  have newx: "(a, b) \<in> adj xs \<Longrightarrow> next (getEntry (entries m') a) = Key b \<and> prev (getEntry (entries m') b) = Key a" for a b
    using oldx[of a b] adj_in[of a b xs] adj_distinct[of xs a b] d by (auto simp: N P)
  have newy: "(a, b) \<in> adj ys \<Longrightarrow> next (getEntry (entries m') a) = Key b \<and> prev (getEntry (entries m') b) = Key a" for a b
    using oldy[of a b] adj_in[of a b ys] adj_distinct[of ys a b] d by (auto simp: N P)
  have lasty: "next (getEntry (entries ?m) (last ys)) = Key (last ys)"
    using linked_last[OF lk] assms(3) by simp
  have "linked m' (k # xs @ ys)"
  proof (rule linkedI)
    fix a b assume "(a, b) \<in> adj (k # xs @ ys)"
    then show "next (getEntry (entries m') a) = Key b \<and> prev (getEntry (entries m') b) = Key a"
      using newx[of a b] newy[of a b] assms(2,3) fk by (auto simp: adj_Cons adj_append N P)
  next
    show "prev (getEntry (entries m') (hd (k # xs @ ys))) = Key (hd (k # xs @ ys))" by (simp add: P)
  next
    show "next (getEntry (entries m') (last (k # xs @ ys))) = Key (last (k # xs @ ys))"
      using assms(3) fk lasty by (simp add: N)
  qed
  then show ?thesis
    unfolding upd using d assms(2,3) dom by (auto simp: ctm_inv_def)
qed

lemma updateTimeMap_inv:
  assumes "ctm_inv ctm ks"
  shows "ctm_inv (updateTimeMap ctm (Key k) t) (k # removeAll k ks)"
proof (cases "k \<in> set ks")
  case False
  then show ?thesis
    using assms update_empty[of ctm k t] update_new[of ctm ks k t] by (cases "ks = []") auto
next
  case True
  then obtain xs ys where ks: "ks = xs @ k # ys" by (auto simp: in_set_conv_decomp)
  have d: "k \<notin> set xs" "k \<notin> set ys" using assms ks by (auto simp: ctm_inv_def)
  then have r: "removeAll k ks = xs @ ys" by (simp add: ks)
  show ?thesis
  proof (cases "xs = []")
    case True
    then show ?thesis using assms update_first[of ctm k ys t] d by (simp add: ks)
  next
    case xs: False
    show ?thesis
    proof (cases "ys = []")
      case True
      then show ?thesis using assms update_last[of ctm xs k t] xs d by (simp add: ks)
    next
      case False
      then show ?thesis using assms update_mid[of ctm xs k ys t] xs d r by (simp add: ks)
    qed
  qed
qed

lemma timestamp_zero [simp]: "timestamp zeroCacheKey = 0"
  by (simp add: zeroCacheKey_def)

lemma removeOldest_fst:
  "fst (removeOldest ctm) = (if len (m_ctm ctm) = 0 then zeroKey else last_ctm ctm)"
  by (simp add: removeOldest_def Let_def)

lemma removeOldest_Nil:
  assumes "ctm_inv ctm []"
  shows "removeOldest ctm = (zeroKey, ctm)"
  using assms by (simp add: removeOldest_def ctm_inv_def)

lemma mapAssign_entries_Key [simp]:
  "entries (mapAssign mp (Key a) v) = fmupd a v (entries mp)"
  "nanEntries (mapAssign mp (Key a) v) = nanEntries mp"
  by simp_all

lemma mapAssign_len [simp]: "0 < len (mapAssign mp k v)"
proof -
  have "len (mapAssign mp k v) \<noteq> 0" by (cases k) simp_all
  then show ?thesis by (simp del: len_0)
qed

lemma mapAssign_getEntry:
  "getEntry (entries (mapAssign mp k v)) x = (if k = Key x then v else getEntry (entries mp) x)"
  by (cases k) auto

lemma mapDelete_getEntry:
  "getEntry (entries (mapDelete mp k)) x = (if k = Key x then zeroCacheKey else getEntry (entries mp) x)"
  by (cases k) auto

lemma updateTimeMap_len [simp]: "0 < len (m_ctm (updateTimeMap ctm k t))"
  unfolding updateTimeMap_def Let_def
  by (simp split: option.splits del: len_0)

lemma updateTimeMap_timestamp:
  "timestamp (getEntry (entries (m_ctm (updateTimeMap ctm k t))) x) =
     (if k = Key x then t else timestamp (getEntry (entries (m_ctm ctm)) x))"
  unfolding updateTimeMap_def Let_def
  by (cases k) (auto simp: mapAssign_getEntry getEntry_Some split: option.splits simp del: len_0)

lemma removeOldest_timestamp:
  "Key x \<noteq> fst (removeOldest ctm) \<Longrightarrow>
   timestamp (getEntry (entries (m_ctm (snd (removeOldest ctm)))) x)
     = timestamp (getEntry (entries (m_ctm ctm)) x)"
  unfolding removeOldest_fst
  by (auto simp: removeOldest_def Let_def mapAssign_getEntry mapDelete_getEntry
           split: if_splits simp del: len_0)

lemma removeOldest_inv:
  assumes "ctm_inv ctm ks" "ks \<noteq> []"
  shows "fst (removeOldest ctm) = Key (last ks) \<and> ctm_inv (snd (removeOldest ctm)) (butlast ks)"
proof -
  let ?m = "m_ctm ctm"
  obtain xs k where ks: "ks = xs @ [k]" using assms(2) by (metis rev_exhaust)
  have ne: "fmdom' (entries ?m) \<noteq> {}" using assms by (auto simp: ctm_inv_def)
  have ns: "nanEntries ?m = []" using assms by (auto simp: ctm_inv_def)
  have ne0: "len ?m \<noteq> 0" using ne by simp
  have d: "distinct xs" "k \<notin> set xs" "fmdom' (entries ?m) = insert k (set xs)"
    using assms(1) by (auto simp: ctm_inv_def ks)
  have l: "last_ctm ctm = Key k" using assms(1) by (simp add: ctm_inv_def ks)
  have lk: "linked ?m (xs @ [k])" using assms(1) by (simp add: ctm_inv_def ks)
  show ?thesis
  proof (cases "xs = []")
    case True
    have "prev (getEntry (entries ?m) k) = Key k" using linked_hd[OF lk] True by simp
    then show ?thesis
      using d True ns by (simp add: removeOldest_def Let_def ne l ks ctm_inv_def linked_def)
  next
    case False
    have p: "prev (getEntry (entries ?m) k) = Key (last xs)"
      using linkedD[OF lk, of "last xs" k] False by (simp add: adj_append)
    have lx: "last xs \<in> set xs" "last xs \<noteq> k" "hd xs \<in> set xs" using False d by auto
    have f: "first ctm = Key (hd xs)" using assms(1) False by (simp add: ctm_inv_def ks)
    define m' where "m' = mapDelete (mapAssign ?m (Key (last xs))
                             ((getEntry (entries ?m) (last xs))\<lparr>next := Key (last xs)\<rparr>)) (Key k)"
    have dom: "fmdom' (entries m') = set xs" "nanEntries m' = []"
      unfolding m'_def using d(2,3) lx(1) ns by auto
    have ne': "len m' \<noteq> 0" using dom False by simp
    have "removeOldest ctm = (let m2 = m' in if len m2 = 0
           then (Key k, \<lparr>m_ctm = m2, first = zeroKey, last_ctm = zeroKey\<rparr>)
           else (Key k, \<lparr>m_ctm = m2, first = first ctm, last_ctm = Key (last xs)\<rparr>))"
      unfolding m'_def removeOldest_def using ne0 by (simp add: l p Let_def del: len_0)
    then have rm: "removeOldest ctm = (Key k, \<lparr>m_ctm = m', first = Key (hd xs), last_ctm = Key (last xs)\<rparr>)"
      using ne' by (simp add: f del: len_0)
    have N: "next (getEntry (entries m') x) = (if x = k then next zeroCacheKey else if x = last xs then Key (last xs) else next (getEntry (entries ?m) x))" for x
      unfolding m'_def by simp
    have P: "prev (getEntry (entries m') x) = (if x = k then prev zeroCacheKey else prev (getEntry (entries ?m) x))" for x
      unfolding m'_def by simp
    have old: "(a, b) \<in> adj xs \<Longrightarrow> next (getEntry (entries ?m) a) = Key b \<and> prev (getEntry (entries ?m) b) = Key a" for a b
      using linkedD[OF lk, of a b] by (simp add: adj_append)
    have "linked m' xs"
    proof (rule linkedI)
      fix a b assume ab: "(a, b) \<in> adj xs"
      then show "next (getEntry (entries m') a) = Key b \<and> prev (getEntry (entries m') b) = Key a"
        using old[of a b] adj_in[of a b xs] adj_distinct[of xs a b] d by (auto simp: N P)
    next
      show "prev (getEntry (entries m') (hd xs)) = Key (hd xs)"
        using linked_hd[OF lk] False lx d by (auto simp: P)
    next
      show "next (getEntry (entries m') (last xs)) = Key (last xs)" using lx by (simp add: N)
    qed
    then show ?thesis
      using d False dom by (simp add: rm ks ctm_inv_def)
  qed
qed

section \<open>Lemmas on the eviction loops\<close>

lemma lrw_lru_inv: "lrw_inv c ks \<Longrightarrow> lru_inv c ks"
  by (simp add: lrw_inv_def lru_inv_def)

lemma evictStep_bounds [simp]:
  "maxSize (evictStep c) = maxSize c" "maxAge (evictStep c) = maxAge c"
  by (simp_all add: evictStep_def Let_def)

lemma evictStep_fields:
  "keys (evictStep c) = snd (removeOldest (keys c))"
  "m_cache (evictStep c) = mapDelete (m_cache c) (fst (removeOldest (keys c)))"
  by (simp_all add: evictStep_def Let_def)

lemma evictStep_lru:
  assumes "lru_inv c ks" "ks \<noteq> []"
  shows "lru_inv (evictStep c) (butlast ks)"
proof -
  have c: "ctm_inv (keys c) ks" and s: "fmdom' (entries (m_cache c)) \<subseteq> set ks"
    and ns: "nanEntries (m_cache c) = []"
    using assms by (simp_all add: lru_inv_def)
  have "set ks = insert (last ks) (set (butlast ks))"
    using assms(2) by (rule set_butlast_last)
  then show ?thesis
    using removeOldest_inv[OF c assms(2)] s ns by (auto simp: lru_inv_def evictStep_fields)
qed

lemma evictStep_lrw:
  assumes "lrw_inv c ks" "ks \<noteq> []"
  shows "lrw_inv (evictStep c) (butlast ks)"
proof -
  have c: "ctm_inv (keys c) ks" and s: "fmdom' (entries (m_cache c)) = set ks"
    and ns: "nanEntries (m_cache c) = []"
    using assms by (simp_all add: lrw_inv_def)
  have d: "distinct ks" using c by (simp add: ctm_inv_def)
  have "set ks = insert (last ks) (set (butlast ks))"
    using assms(2) by (rule set_butlast_last)
  moreover have "last ks \<notin> set (butlast ks)"
    using d assms(2) by (rule last_notin_butlast)
  ultimately show ?thesis
    using removeOldest_inv[OF c assms(2)] s ns by (auto simp: lrw_inv_def evictStep_fields)
qed

lemma evictStep_lookup:
  assumes "lru_inv c ks" "ks \<noteq> []"
  shows "fmlookup (entries (m_cache (evictStep c))) x =
           (if x \<in> set (butlast ks) then fmlookup (entries (m_cache c)) x else None)"
proof -
  have c: "ctm_inv (keys c) ks" and s: "fmdom' (entries (m_cache c)) \<subseteq> set ks"
    and ns: "nanEntries (m_cache c) = []"
    using assms by (simp_all add: lru_inv_def)
  have d: "distinct ks" using c by (simp add: ctm_inv_def)
  have e: "set ks = insert (last ks) (set (butlast ks))"
    using assms(2) by (rule set_butlast_last)
  have n: "last ks \<notin> set (butlast ks)"
    using d assms(2) by (rule last_notin_butlast)
  have "x \<notin> set ks \<Longrightarrow> fmlookup (entries (m_cache c)) x = None"
    using s by (meson fmdom'_notD subsetD)
  then show ?thesis
    using removeOldest_inv[OF c assms(2)] e n by (auto simp: evictStep_fields)
qed

lemma evictStep_timestamp:
  assumes "lru_inv c ks" "ks \<noteq> []" "x \<in> set (butlast ks)"
  shows "timestamp (getEntry (entries (m_ctm (keys (evictStep c)))) x) = timestamp (getEntry (entries (m_ctm (keys c))) x)"
proof -
  have c: "ctm_inv (keys c) ks" using assms by (simp add: lru_inv_def)
  have d: "distinct ks" using c by (simp add: ctm_inv_def)
  have n: "last ks \<notin> set (butlast ks)"
    using d assms(2) by (rule last_notin_butlast)
  have "Key x \<noteq> fst (removeOldest (keys c))"
    using removeOldest_inv[OF c assms(2)] n assms(3) by auto
  then show ?thesis by (simp add: removeOldest_timestamp evictStep_fields)
qed

lemma evict_iter:
  assumes "lru_inv c ks" "j \<le> length ks"
  shows "lru_inv ((evictStep ^^ j) c) (take (length ks - j) ks)
       \<and> maxSize ((evictStep ^^ j) c) = maxSize c
       \<and> maxAge ((evictStep ^^ j) c) = maxAge c
       \<and> (\<forall>x. fmlookup (entries (m_cache ((evictStep ^^ j) c))) x =
              (if x \<in> set (take (length ks - j) ks) then fmlookup (entries (m_cache c)) x else None))
       \<and> (\<forall>x \<in> set (take (length ks - j) ks).
              timestamp (getEntry (entries (m_ctm (keys ((evictStep ^^ j) c)))) x) =
              timestamp (getEntry (entries (m_ctm (keys c))) x))"
  using assms(2)
proof (induction j)
  case 0
  have "x \<notin> set ks \<Longrightarrow> fmlookup (entries (m_cache c)) x = None" for x
    using assms(1) by (meson fmdom'_notD subsetD lru_inv_def)
  then show ?case using assms(1) by auto
next
  case (Suc j)
  let ?c = "(evictStep ^^ j) c"
  let ?ks = "take (length ks - j) ks"
  have ih: "lru_inv ?c ?ks" "maxSize ?c = maxSize c" "maxAge ?c = maxAge c"
    "\<And>x. fmlookup (entries (m_cache ?c)) x = (if x \<in> set ?ks then fmlookup (entries (m_cache c)) x else None)"
    "\<And>x. x \<in> set ?ks \<Longrightarrow> timestamp (getEntry (entries (m_ctm (keys ?c))) x) = timestamp (getEntry (entries (m_ctm (keys c))) x)"
    using Suc by auto
  have ne: "?ks \<noteq> []" using Suc.prems by auto
  have bl: "butlast ?ks = take (length ks - Suc j) ks"
    by (simp add: butlast_take)
  have sub: "set (butlast ?ks) \<subseteq> set ?ks" by (meson in_set_butlastD subsetI)
  show ?case
    using evictStep_lru[OF ih(1) ne] evictStep_lookup[OF ih(1) ne] evictStep_timestamp[OF ih(1) ne]
      ih(2-5) sub unfolding bl by auto
qed

lemma lruAge_bySize_unfold:
  "lruAge_bySize c =
     (if int (len (m_cache c)) > maxSize c then lruAge_bySize (evictStep c) else Some c)"
  by (subst lruAge_bySize.simps) (simp add: evictStep_def Let_def)

lemma lruAge_byAge_unfold:
  "lruAge_byAge c now =
     (if sinceOldest (keys c) now < maxAge c then Some c
      else if len (m_cache (evictStep c)) = 0 then Some (evictStep c)
      else lruAge_byAge (evictStep c) now)"
  by (subst lruAge_byAge.simps) (simp add: evictStep_def Let_def)

lemma lru_inv_len: "lru_inv c ks \<Longrightarrow> len (m_cache c) \<le> length ks"
proof -
  assume a: "lru_inv c ks"
  then have "card (fmdom' (entries (m_cache c))) \<le> card (set ks)"
    by (intro card_mono) (auto simp: lru_inv_def)
  also have "\<dots> \<le> length ks" by (rule card_length)
  finally show ?thesis using a by (simp add: len_def lru_inv_def)
qed

lemma lruAge_bySize_run:
  assumes "lru_inv c ks" "maxSize c > 0"
  shows "\<exists>j\<le>length ks. lruAge_bySize c = Some ((evictStep ^^ j) c)
           \<and> int (len (m_cache ((evictStep ^^ j) c))) \<le> maxSize c
           \<and> (\<forall>i<j. int (len (m_cache ((evictStep ^^ i) c))) > maxSize c)"
  using assms
proof (induction "length ks" arbitrary: c ks)
  case 0
  then have z: "len (m_cache c) = 0" using lru_inv_len[of c ks] by simp
  then have "lruAge_bySize c = Some c"
    using 0 by (subst lruAge_bySize_unfold) (simp del: len_0)
  then show ?case using z 0 by (intro exI[of _ 0]) (simp del: len_0)
next
  case (Suc n)
  show ?case
  proof (cases "int (len (m_cache c)) > maxSize c")
    case False
    then have "lruAge_bySize c = Some c"
      by (subst lruAge_bySize_unfold) (simp del: len_0)
    then show ?thesis using False by (intro exI[of _ 0]) (simp del: len_0)
  next
    case True
    have ne: "ks \<noteq> []" using Suc.hyps(2) by auto
    have i: "lru_inv (evictStep c) (butlast ks)" by (rule evictStep_lru[OF Suc.prems(1) ne])
    have l: "n = length (butlast ks)" using Suc.hyps(2) by simp
    from Suc.hyps(1)[OF l i] Suc.prems(2)
    obtain j where j: "j \<le> length (butlast ks)"
       "lruAge_bySize (evictStep c) = Some ((evictStep ^^ j) (evictStep c))"
       "int (len (m_cache ((evictStep ^^ j) (evictStep c)))) \<le> maxSize c"
       "\<forall>i<j. int (len (m_cache ((evictStep ^^ i) (evictStep c)))) > maxSize c"
      by (auto simp del: len_0)
    have sw: "(evictStep ^^ i) (evictStep c) = (evictStep ^^ Suc i) c" for i
      by (simp add: funpow_swap1)
    have "\<forall>i<Suc j. int (len (m_cache ((evictStep ^^ i) c))) > maxSize c"
    proof (intro allI impI)
      fix i assume "i < Suc j"
      then show "int (len (m_cache ((evictStep ^^ i) c))) > maxSize c"
        using True j(4) sw by (cases i) (auto simp del: len_0 funpow.simps)
    qed
    moreover have "lruAge_bySize c = Some ((evictStep ^^ Suc j) c)"
      using True j(2) sw by (subst lruAge_bySize_unfold) (simp del: funpow.simps)
    moreover have "int (len (m_cache ((evictStep ^^ Suc j) c))) \<le> maxSize c"
      using j(3) sw by (simp del: funpow.simps)
    moreover have "Suc j \<le> length ks" using j(1) Suc.hyps(2) by auto
    ultimately show ?thesis by blast
  qed
qed

lemma sinceOldest_Nil: "ctm_inv ctm [] \<Longrightarrow> sinceOldest ctm now = 0"
  by (simp add: sinceOldest_def ctm_inv_def)

lemma lruAge_byAge_run:
  assumes "lru_inv c ks" "maxAge c > 0"
  shows "\<exists>j\<le>length ks. lruAge_byAge c now = Some ((evictStep ^^ j) c)
           \<and> (\<forall>i<j. \<not> sinceOldest (keys ((evictStep ^^ i) c)) now < maxAge c)"
  using assms
proof (induction "length ks" arbitrary: c ks)
  case 0
  then have "sinceOldest (keys c) now = 0"
    by (simp add: lru_inv_def sinceOldest_Nil)
  then have "lruAge_byAge c now = Some c"
    using 0 by (subst lruAge_byAge_unfold) simp
  then show ?case by (intro exI[of _ 0]) simp
next
  case (Suc n)
  show ?case
  proof (cases "sinceOldest (keys c) now < maxAge c")
    case True
    then have "lruAge_byAge c now = Some c"
      by (subst lruAge_byAge_unfold) simp
    then show ?thesis by (intro exI[of _ 0]) simp
  next
    case False
    have ne: "ks \<noteq> []" using Suc.hyps(2) by auto
    have i: "lru_inv (evictStep c) (butlast ks)" by (rule evictStep_lru[OF Suc.prems(1) ne])
    have l: "n = length (butlast ks)" using Suc.hyps(2) by simp
    show ?thesis
    proof (cases "len (m_cache (evictStep c)) = 0")
      case True
      then have "lruAge_byAge c now = Some ((evictStep ^^ 1) c)"
        using False by (subst lruAge_byAge_unfold) (simp del: len_0)
      then show ?thesis using False ne
        by (intro exI[of _ 1]) (simp del: len_0 add: Suc_le_eq)
    next
      case nz: False
      from Suc.hyps(1)[OF l i] Suc.prems(2)
      obtain j where j: "j \<le> length (butlast ks)"
         "lruAge_byAge (evictStep c) now = Some ((evictStep ^^ j) (evictStep c))"
         "\<forall>i<j. \<not> sinceOldest (keys ((evictStep ^^ i) (evictStep c))) now < maxAge c"
        by (auto simp del: len_0)
      have sw: "(evictStep ^^ i) (evictStep c) = (evictStep ^^ Suc i) c" for i
        by (simp add: funpow_swap1)
      have "\<forall>i<Suc j. \<not> sinceOldest (keys ((evictStep ^^ i) c)) now < maxAge c"
      proof (intro allI impI)
        fix i assume "i < Suc j"
        then show "\<not> sinceOldest (keys ((evictStep ^^ i) c)) now < maxAge c"
          using False j(3) sw by (cases i) (auto simp del: len_0 funpow.simps)
      qed
      moreover have "lruAge_byAge c now = Some ((evictStep ^^ Suc j) c)"
        using False nz j(2) sw
        by (subst lruAge_byAge_unfold) (simp del: funpow.simps len_0)
      moreover have "Suc j \<le> length ks" using j(1) Suc.hyps(2) by auto
      ultimately show ?thesis by blast
    qed
  qed
qed

section \<open>The LRW loops are the LRU loops\<close>

lemma lrwAge_bySize_le:
  assumes "lrwAge_bySize c = Some y"
  shows "lruAge_bySize c = Some y"
proof (rule lrwAge_bySize.raw_induct[where P="\<lambda>c y. lruAge_bySize c = Some y", OF _ assms], goal_cases)
  case (1 f c y)
  then show ?case
    by (subst lruAge_bySize.simps) (auto simp: Let_def split: if_splits simp del: len_0)
qed

lemma lruAge_bySize_le:
  assumes "lruAge_bySize c = Some y"
  shows "lrwAge_bySize c = Some y"
proof (rule lruAge_bySize.raw_induct[where P="\<lambda>c y. lrwAge_bySize c = Some y", OF _ assms], goal_cases)
  case (1 f c y)
  then show ?case
    by (subst lrwAge_bySize.simps) (auto simp: Let_def split: if_splits simp del: len_0)
qed

lemma lrwAge_bySize_eq: "lrwAge_bySize c = lruAge_bySize c"
proof (cases "lrwAge_bySize c")
  case None
  then show ?thesis using lruAge_bySize_le[of c] by (cases "lruAge_bySize c") auto
next
  case (Some y)
  then show ?thesis using lrwAge_bySize_le[of c y] by simp
qed

lemma lrwAge_byAge_le:
  assumes "lrwAge_byAge c now = Some y"
  shows "lruAge_byAge c now = Some y"
proof (rule lrwAge_byAge.raw_induct[where P="\<lambda>c now y. lruAge_byAge c now = Some y", OF _ assms], goal_cases)
  case (1 f c now y)
  then show ?case
    by (subst lruAge_byAge.simps) (auto simp: Let_def split: if_splits simp del: len_0)
qed

lemma lruAge_byAge_le:
  assumes "lruAge_byAge c now = Some y"
  shows "lrwAge_byAge c now = Some y"
proof (rule lruAge_byAge.raw_induct[where P="\<lambda>c now y. lrwAge_byAge c now = Some y", OF _ assms], goal_cases)
  case (1 f c now y)
  then show ?case
    by (subst lrwAge_byAge.simps) (auto simp: Let_def split: if_splits simp del: len_0)
qed

lemma lrwAge_byAge_eq: "lrwAge_byAge c now = lruAge_byAge c now"
proof (cases "lrwAge_byAge c now")
  case None
  then show ?thesis using lruAge_byAge_le[of c now] by (cases "lruAge_byAge c now") auto
next
  case (Some y)
  then show ?thesis using lrwAge_byAge_le[of c now y] by simp
qed

lemma lrwAge_eq: "lrwAge c now = lruAge c now"
  by (simp add: lrwAge_def lruAge_def lrwAge_byAge_eq lrwAge_bySize_eq split: option.splits)

lemma SetLRW_eq: "SetLRW c k v now = SetLRU c k v now"
  by (simp add: SetLRW_def SetLRU_def lrwAge_eq)

lemma NewLRWCache_eq: "NewLRWCache k v s a = NewLRUCache k v s a"
  by (simp add: NewLRWCache_def NewLRUCache_def)

section \<open>One Set, one Get\<close>

lemma Sub_self [simp]: "Sub t t = 0"
  by (simp add: Sub_def maxDuration_def minDuration_def)

lemma evict_iter_lrw:
  assumes "lrw_inv c ks" "j \<le> length ks"
  shows "lrw_inv ((evictStep ^^ j) c) (take (length ks - j) ks)"
  using assms(2)
proof (induction j)
  case 0
  then show ?case using assms(1) by simp
next
  case (Suc j)
  have ne: "take (length ks - j) ks \<noteq> []" using Suc.prems by auto
  have bl: "butlast (take (length ks - j) ks) = take (length ks - Suc j) ks"
    by (simp add: butlast_take)
  show ?case
    using evictStep_lrw[OF _ ne, of "(evictStep ^^ j) c"] Suc unfolding bl by simp
qed

lemma age_survive:
  assumes "lru_inv c ks" "maxAge c > 0" "ks \<noteq> []"
    and "timestamp (getEntry (entries (m_ctm (keys c))) (hd ks)) = now"
    and "j \<le> length ks"
    and "\<forall>i<j. \<not> sinceOldest (keys ((evictStep ^^ i) c)) now < maxAge c"
  shows "j < length ks"
proof (rule ccontr)
  assume "\<not> j < length ks"
  then have j: "j = length ks" using assms(5) by simp
  define i where "i = length ks - 1"
  have "0 < length ks" using assms(3) by simp
  then have i: "i < j" "i \<le> length ks" "length ks - i = 1" unfolding i_def j by arith+
  have t: "take 1 ks = [hd ks]" using assms(3) by (cases ks) auto
  let ?c = "(evictStep ^^ i) c"
  from evict_iter[OF assms(1) i(2)]
  have inv: "lru_inv ?c [hd ks]"
    and ts: "timestamp (getEntry (entries (m_ctm (keys ?c))) (hd ks)) = timestamp (getEntry (entries (m_ctm (keys c))) (hd ks))"
    unfolding i(3) t by auto
  have "sinceOldest (keys ?c) now = 0"
    using inv ts assms(4) by (simp add: sinceOldest_def lru_inv_def ctm_inv_def)
  then show False using assms(6) i(1) assms(2) by auto
qed

lemma size_survive:
  assumes "lru_inv c ks" "maxSize c > 0" "ks \<noteq> []"
    and "j \<le> length ks"
    and "\<forall>i<j. int (len (m_cache ((evictStep ^^ i) c))) > maxSize c"
  shows "j < length ks"
proof (rule ccontr)
  assume "\<not> j < length ks"
  then have j: "j = length ks" using assms(4) by simp
  define i where "i = length ks - 1"
  have "0 < length ks" using assms(3) by simp
  then have i: "i < j" "i \<le> length ks" "length ks - i = 1" unfolding i_def j by arith+
  let ?c = "(evictStep ^^ i) c"
  from evict_iter[OF assms(1) i(2)]
  have inv: "lru_inv ?c (take 1 ks)" unfolding i(3) by auto
  have "len (m_cache ?c) \<le> 1" using lru_inv_len[OF inv] by simp
  then show False using assms(5) i(1) assms(2) by (auto simp del: len_0)
qed

lemma lruAge_run:
  assumes "lru_inv c ks"
  shows "\<exists>j\<le>length ks. lruAge c now = Some ((evictStep ^^ j) c)
           \<and> (maxSize c > 0 \<longrightarrow> int (len (m_cache ((evictStep ^^ j) c))) \<le> maxSize c)
           \<and> (ks \<noteq> [] \<and> timestamp (getEntry (entries (m_ctm (keys c))) (hd ks)) = now \<longrightarrow> j < length ks)"
proof -
  let ?surv = "ks \<noteq> [] \<and> timestamp (getEntry (entries (m_ctm (keys c))) (hd ks)) = now"
  obtain j1 c1 where 1: "j1 \<le> length ks" "c1 = (evictStep ^^ j1) c"
     "(if maxAge c > 0 then lruAge_byAge c now else Some c) = Some c1"
     "?surv \<longrightarrow> j1 < length ks"
  proof (cases "maxAge c > 0")
    case True
    from lruAge_byAge_run[OF assms True, of now]
    obtain j where j: "j \<le> length ks" "lruAge_byAge c now = Some ((evictStep ^^ j) c)"
      "\<forall>i<j. \<not> sinceOldest (keys ((evictStep ^^ i) c)) now < maxAge c" by blast
    have "?surv \<longrightarrow> j < length ks"
      using age_survive[OF assms True _ _ j(1) j(3)] by blast
    then show ?thesis using that[of j "(evictStep ^^ j) c"] j True by simp
  next
    case False
    then show ?thesis using that[of 0 c] by auto
  qed
  let ?ks1 = "take (length ks - j1) ks"
  from evict_iter[OF assms 1(1)]
  have inv1: "lru_inv c1 ?ks1" and b1: "maxSize c1 = maxSize c" "maxAge c1 = maxAge c"
    unfolding 1(2) by auto
  have hd1: "j1 < length ks \<Longrightarrow> ?ks1 \<noteq> []" by auto
  obtain j2 where 2: "j2 \<le> length ?ks1"
     "(if maxSize c1 > 0 then lruAge_bySize c1 else Some c1) = Some ((evictStep ^^ j2) c1)"
     "maxSize c > 0 \<longrightarrow> int (len (m_cache ((evictStep ^^ j2) c1))) \<le> maxSize c"
     "?ks1 \<noteq> [] \<longrightarrow> j2 < length ?ks1"
  proof (cases "maxSize c1 > 0")
    case True
    from lruAge_bySize_run[OF inv1 True]
    obtain j where j: "j \<le> length ?ks1" "lruAge_bySize c1 = Some ((evictStep ^^ j) c1)"
      "int (len (m_cache ((evictStep ^^ j) c1))) \<le> maxSize c1"
      "\<forall>i<j. int (len (m_cache ((evictStep ^^ i) c1))) > maxSize c1" by blast
    have "?ks1 \<noteq> [] \<longrightarrow> j < length ?ks1"
      using size_survive[OF inv1 True _ j(1) j(4)] by blast
    then show ?thesis using that[of j] j True b1 by (simp del: len_0)
  next
    case False
    then show ?thesis using that[of 0] b1 by auto
  qed
  have comp: "(evictStep ^^ j2) c1 = (evictStep ^^ (j2 + j1)) c"
    unfolding 1(2) by (simp add: funpow_add)
  have "lruAge c now = Some ((evictStep ^^ (j2 + j1)) c)"
    using 1(3) 2(2) comp by (simp add: lruAge_def)
  moreover have "j2 + j1 \<le> length ks" using 1(1) 2(1) by simp
  moreover have "?surv \<longrightarrow> j2 + j1 < length ks"
    using 1(4) 2(4) hd1 by auto
  ultimately show ?thesis using 2(3) comp by (intro exI[of _ "j2 + j1"]) (simp del: len_0)
qed

lemma SetLRU_run:
  fixes c :: "('a::zero, 'v) cache" and k :: 'a and v :: 'v and now :: Time
  assumes "lru_inv c ks"
  defines "c2 \<equiv> c\<lparr>m_cache := mapAssign (m_cache c) (Key k) v,
                     keys := updateTimeMap (keys c) (Key k) now\<rparr>"
  shows "\<exists>j\<le>length (removeAll k ks).
           SetLRU c (Key k) v now = Some ((evictStep ^^ j) c2)
         \<and> lru_inv c2 (k # removeAll k ks)
         \<and> lru_inv ((evictStep ^^ j) c2) (take (Suc (length (removeAll k ks)) - j) (k # removeAll k ks))
         \<and> maxSize ((evictStep ^^ j) c2) = maxSize c
         \<and> maxAge ((evictStep ^^ j) c2) = maxAge c
         \<and> fmlookup (entries (m_cache ((evictStep ^^ j) c2))) k = Some v
         \<and> (maxSize c > 0 \<longrightarrow> int (len (m_cache ((evictStep ^^ j) c2))) \<le> maxSize c)"
proof -
  let ?ks = "k # removeAll k ks"
  have c: "ctm_inv (keys c) ks" and s: "fmdom' (entries (m_cache c)) \<subseteq> set ks"
    and ns: "nanEntries (m_cache c) = []"
    using assms(1) by (simp_all add: lru_inv_def)
  have inv2: "lru_inv c2 ?ks"
    using updateTimeMap_inv[OF c, of k now] s ns by (auto simp: lru_inv_def c2_def)
  have ts: "timestamp (getEntry (entries (m_ctm (keys c2))) (hd ?ks)) = now"
    by (simp add: c2_def updateTimeMap_timestamp)
  have set: "SetLRU c (Key k) v now = lruAge c2 now"
    by (simp add: SetLRU_def c2_def Let_def)
  from lruAge_run[OF inv2, of now] ts
  obtain j where j: "j \<le> length ?ks" "lruAge c2 now = Some ((evictStep ^^ j) c2)"
    "maxSize c2 > 0 \<longrightarrow> int (len (m_cache ((evictStep ^^ j) c2))) \<le> maxSize c2"
    "j < length ?ks" by (auto simp del: len_0)
  have n: "length ?ks - j = Suc (length (removeAll k ks)) - j" by simp
  have kin: "k \<in> set (take (length ?ks - j) ?ks)"
    using j(4) by (cases "length ?ks - j") auto
  from evict_iter[OF inv2 j(1)] kin
  have "lru_inv ((evictStep ^^ j) c2) (take (length ?ks - j) ?ks)"
    "maxSize ((evictStep ^^ j) c2) = maxSize c2" "maxAge ((evictStep ^^ j) c2) = maxAge c2"
    "fmlookup (entries (m_cache ((evictStep ^^ j) c2))) k = fmlookup (entries (m_cache c2)) k"
    by auto
  moreover have "maxSize c2 = maxSize c" "maxAge c2 = maxAge c" "fmlookup (entries (m_cache c2)) k = Some v"
    by (simp_all add: c2_def)
  moreover have "j \<le> length (removeAll k ks)" using j(4) by simp
  ultimately show ?thesis
    using j(2,3) set inv2 unfolding n by (intro exI[of _ j]) (simp del: len_0)
qed

lemma GetLRU_inv:
  assumes "lru_inv c ks"
  shows "lru_inv (snd (GetLRU c (Key k) now)) (k # removeAll k ks)"
proof -
  have c: "ctm_inv (keys c) ks" and s: "fmdom' (entries (m_cache c)) \<subseteq> set ks"
    and ns: "nanEntries (m_cache c) = []"
    using assms(1) by (simp_all add: lru_inv_def)
  show ?thesis
    using updateTimeMap_inv[OF c, of k now] s ns by (auto simp: lru_inv_def GetLRU_def Let_def)
qed

lemma GetLRU_bounds [simp]:
  "maxSize (snd (GetLRU c k now)) = maxSize c" "maxAge (snd (GetLRU c k now)) = maxAge c"
  "m_cache (snd (GetLRU c k now)) = m_cache c"
  by (simp_all add: GetLRU_def Let_def)

lemma SetLRW_run:
  fixes c :: "('a::zero, 'v) cache" and k :: 'a and v :: 'v and now :: Time
  assumes "lrw_inv c ks"
  defines "c2 \<equiv> c\<lparr>m_cache := mapAssign (m_cache c) (Key k) v,
                     keys := updateTimeMap (keys c) (Key k) now\<rparr>"
  shows "\<exists>j\<le>length (removeAll k ks).
           SetLRW c (Key k) v now = Some ((evictStep ^^ j) c2)
         \<and> lrw_inv ((evictStep ^^ j) c2) (take (Suc (length (removeAll k ks)) - j) (k # removeAll k ks))
         \<and> maxSize ((evictStep ^^ j) c2) = maxSize c
         \<and> maxAge ((evictStep ^^ j) c2) = maxAge c
         \<and> fmlookup (entries (m_cache ((evictStep ^^ j) c2))) k = Some v
         \<and> (maxSize c > 0 \<longrightarrow> int (len (m_cache ((evictStep ^^ j) c2))) \<le> maxSize c)"
proof -
  let ?ks = "k # removeAll k ks"
  have c: "ctm_inv (keys c) ks" and s: "fmdom' (entries (m_cache c)) = set ks"
    and ns: "nanEntries (m_cache c) = []"
    using assms(1) by (simp_all add: lrw_inv_def)
  have inv2: "lrw_inv c2 ?ks"
    using updateTimeMap_inv[OF c, of k now] s ns by (auto simp: lrw_inv_def c2_def)
  from SetLRU_run[OF lrw_lru_inv[OF assms(1)], of k v now]
  obtain j where j: "j \<le> length (removeAll k ks)"
    "SetLRU c (Key k) v now = Some ((evictStep ^^ j) c2)"
    "maxSize ((evictStep ^^ j) c2) = maxSize c"
    "maxAge ((evictStep ^^ j) c2) = maxAge c"
    "fmlookup (entries (m_cache ((evictStep ^^ j) c2))) k = Some v"
    "maxSize c > 0 \<longrightarrow> int (len (m_cache ((evictStep ^^ j) c2))) \<le> maxSize c"
    unfolding c2_def by (auto simp del: len_0)
  have "j \<le> length ?ks" using j(1) by simp
  from evict_iter_lrw[OF inv2 this]
  have "lrw_inv ((evictStep ^^ j) c2) (take (Suc (length (removeAll k ks)) - j) ?ks)" by simp
  then show ?thesis
    using j by (intro exI[of _ j]) (simp add: SetLRW_eq del: len_0)
qed

section \<open>Reachable states are well formed\<close>

lemma ctm_inv_new: "ctm_inv (newCacheTimeMap k) []"
  by (simp add: ctm_inv_def newCacheTimeMap_def linked_def)

lemma ctm_reachable_inv_gen:
  "ctm_reachable P ctm \<Longrightarrow> (\<And>k. P k \<Longrightarrow> selfEq k) \<Longrightarrow> \<exists>ks. ctm_inv ctm ks"
proof (induction rule: ctm_reachable.induct)
  case (ctm_new P k)
  then show ?case using ctm_inv_new by blast
next
  case (ctm_touch P ctm k t)
  then obtain ks where ks: "ctm_inv ctm ks" by blast
  have "selfEq k" using ctm_touch by blast
  then obtain a where a: "k = Key a" by (cases k) auto
  show ?case using updateTimeMap_inv[OF ks, of a t] unfolding a by blast
next
  case (ctm_evict P ctm)
  then obtain ks where ks: "ctm_inv ctm ks" by blast
  show ?case
  proof (cases "ks = []")
    case True
    then show ?thesis using ks removeOldest_Nil[of ctm] by auto
  next
    case False
    then show ?thesis using removeOldest_inv[OF ks] by blast
  qed
qed

lemma ctm_reachable_inv: "ctm_reachable selfEq ctm \<Longrightarrow> \<exists>ks. ctm_inv ctm ks"
  by (rule ctm_reachable_inv_gen)

lemma lru_reachable_inv_gen:
  "lru_reachable P sz age c \<Longrightarrow> (\<And>k. P k \<Longrightarrow> selfEq k) \<Longrightarrow> maxSize c = sz \<and> maxAge c = age \<and> (\<exists>ks. lru_inv c ks)"
proof (induction rule: lru_reachable.induct)
  case (lru_new k v sz age c P)
  then have "lru_inv c []"
    using ctm_inv_new[of k] by (auto simp: NewLRUCache_def lru_inv_def split: if_splits)
  then show ?case using lru_new by (auto simp: NewLRUCache_def split: if_splits)
next
  case (lru_set P sz age c k v now c')
  then obtain ks where ks: "lru_inv c ks" by blast
  have "selfEq k" using lru_set by blast
  then obtain a where a: "k = Key a" by (cases k) auto
  from SetLRU_run[OF ks, of a v now] lru_set show ?case by (auto simp del: len_0 simp: a)
next
  case (lru_get P sz age c k now)
  then obtain ks where ks: "lru_inv c ks" by blast
  have "selfEq k" using lru_get by blast
  then obtain a where a: "k = Key a" by (cases k) auto
  show ?case using GetLRU_inv[OF ks, of a now] lru_get by (auto simp: a)
qed

lemma lru_reachable_inv:
  "lru_reachable selfEq sz age c \<Longrightarrow> maxSize c = sz \<and> maxAge c = age \<and> (\<exists>ks. lru_inv c ks)"
  by (rule lru_reachable_inv_gen)

lemma lrw_reachable_inv_gen:
  "lrw_reachable P sz age c \<Longrightarrow> (\<And>k. P k \<Longrightarrow> selfEq k) \<Longrightarrow> maxSize c = sz \<and> maxAge c = age \<and> (\<exists>ks. lrw_inv c ks)"
proof (induction rule: lrw_reachable.induct)
  case (lrw_new k v sz age c P)
  then have "lrw_inv c []"
    using ctm_inv_new[of k] by (auto simp: NewLRWCache_def lrw_inv_def split: if_splits)
  then show ?case using lrw_new by (auto simp: NewLRWCache_def split: if_splits)
next
  case (lrw_set P sz age c k v now c')
  then obtain ks where ks: "lrw_inv c ks" by blast
  have "selfEq k" using lrw_set by blast
  then obtain a where a: "k = Key a" by (cases k) auto
  from SetLRW_run[OF ks, of a v now] lrw_set show ?case by (auto simp del: len_0 simp: a)
next
  case (lrw_get P sz age c k)
  then show ?case by (simp add: GetLRW_def)
qed

lemma lrw_reachable_inv:
  "lrw_reachable selfEq sz age c \<Longrightarrow> maxSize c = sz \<and> maxAge c = age \<and> (\<exists>ks. lrw_inv c ks)"
  by (rule lrw_reachable_inv_gen)

lemma walk_suffix:
  assumes "distinct (pre @ ks)" "linked mp (pre @ ks)" "set (pre @ ks) \<subseteq> fmdom' (entries mp)"
    "ks \<noteq> []" "length ks \<le> n"
  shows "walk mp (Key (hd ks)) n = map Key ks"
  using assms
proof (induction ks arbitrary: pre n)
  case Nil
  then show ?case by simp
next
  case (Cons k ks)
  obtain n' where n: "n = Suc n'" using Cons.prems(5) by (cases n) auto
  have "k \<in> fmdom' (entries mp)" using Cons.prems(3) by simp
  then obtain e where e: "fmlookup (entries mp) k = Some e" by (auto simp: fmlookup_dom'_iff)
  have g: "getEntry (entries mp) k = e" using e by (rule getEntry_Some)
  show ?case
  proof (cases ks)
    case Nil
    have "next e = Key k" using linked_last[OF Cons.prems(2)] g Nil by simp
    then show ?thesis by (simp add: n e Nil)
  next
    case (Cons k' rest)
    have "(k, k') \<in> adj (pre @ k # ks)" by (simp add: adj_append adj_Cons Cons)
    then have nx: "next e = Key k'" using linkedD[OF Cons.prems(2)] g by auto
    have ne: "k' \<noteq> k" using Cons.prems(1) Cons by auto
    have "walk mp (Key (hd ks)) n' = map Key ks"
      using Cons.IH[of "pre @ [k]" n'] Cons.prems n Cons by simp
    then show ?thesis using nx ne by (simp add: n e Cons)
  qed
qed

lemma towardTail_inv:
  assumes "ctm_inv ctm ks"
  shows "towardTail ctm = map Key ks"
proof (cases "ks = []")
  case True
  then show ?thesis using assms
    by (simp add: towardTail_def ctm_inv_def fmdom'_notD zeroKey_def)
next
  case False
  have "length ks = len (m_ctm ctm)"
    using assms by (simp add: ctm_inv_def len_def distinct_card)
  then show ?thesis
    using walk_suffix[of "[]" ks "m_ctm ctm" "Suc (len (m_ctm ctm))"] assms False
    by (simp add: towardTail_def ctm_inv_def del: walk.simps len_0)
qed

section \<open>Helper lemmas for the claims\<close>

lemmas cache_evals =
  NewLRUCache_def NewLRWCache_def SetLRU_def SetLRW_def GetLRU_def GetLRW_def
  lruAge_def lrwAge_def lruAge_byAge.simps lruAge_bySize.simps lrwAge_byAge.simps
  lrwAge_bySize.simps sinceOldest_def removeOldest_def updateTimeMap_def
  newCacheTimeMap_def len_def getKey_def getEntry_def zeroCacheKey_def zeroKey_def
  makeMap_def goEq_def Sub_def maxDuration_def minDuration_def Let_def

lemma keysOf_mapAssign [simp]: "keysOf (mapAssign mp k v) = insert k (keysOf mp)"
  by (cases k) (auto simp: keysOf_def)

lemma keysOf_mapDelete: "keysOf (mapDelete mp k) = keysOf mp - (if selfEq k then {k} else {})"
  by (cases k) (auto simp: keysOf_def)

lemma keysOf_empty_iff: "keysOf mp = {} \<longleftrightarrow> len mp = 0"
  by (auto simp: keysOf_def)

lemma updateTimeMap_dom: "k \<in> keysOf (m_ctm (updateTimeMap ctm k t))"
  by (simp add: updateTimeMap_def Let_def split: option.splits del: len_0)

lemmas ctm_evals =
  updateTimeMap_def removeOldest_def newCacheTimeMap_def len_def getKey_def getEntry_def
  zeroCacheKey_def zeroKey_def makeMap_def goEq_def Let_def fmdrop_fmupd

lemma ctm_inv_ends:
  assumes "ctm_inv ctm ks"
  shows "(len (m_ctm ctm) = 0 \<longrightarrow> ks = [] \<and> first ctm = zeroKey \<and> last_ctm ctm = zeroKey)
       \<and> (len (m_ctm ctm) \<noteq> 0 \<longrightarrow>
            ks \<noteq> [] \<and> first ctm = Key (hd ks) \<and> last_ctm ctm = Key (last ks)
            \<and> first ctm \<in> keysOf (m_ctm ctm) \<and> last_ctm ctm \<in> keysOf (m_ctm ctm))"
  using assms by (cases "ks = []") (auto simp: ctm_inv_def)

lemma walk_facts:
  assumes "ctm_inv ctm ks"
  shows "towardTail ctm = map Key ks \<and> distinct ks \<and> Key ` set ks = keysOf (m_ctm ctm)
       \<and> length ks = len (m_ctm ctm) \<and> (ks \<noteq> [] \<longrightarrow> Key (last ks) = last_ctm ctm)"
  using assms towardTail_inv[OF assms]
  by (auto simp: ctm_inv_def len_def distinct_card keysOf_def)

lemma lrw_inv_len: "lrw_inv c ks \<Longrightarrow> len (m_cache c) = length ks"
  by (simp add: lrw_inv_def ctm_inv_def len_def distinct_card)

lemma SetLRW_exact:
  fixes c :: "('a::zero, 'v) cache" and k :: 'a and v :: 'v and now :: Time
  assumes "lrw_inv c ks" "maxAge c \<le> 0" "maxSize c > 0"
  defines "ks' \<equiv> take (nat (maxSize c)) (k # removeAll k ks)"
  shows "\<exists>c'. SetLRW c (Key k) v now = Some c' \<and> lrw_inv c' ks'
           \<and> maxSize c' = maxSize c \<and> maxAge c' = maxAge c
           \<and> (\<forall>x. fmlookup (entries (m_cache c')) x =
                 (if x \<in> set ks' then (if x = k then Some v else fmlookup (entries (m_cache c)) x)
                  else None))"
proof -
  define c2 where "c2 = c\<lparr>m_cache := mapAssign (m_cache c) (Key k) v,
                            keys := updateTimeMap (keys c) (Key k) now\<rparr>"
  let ?ks = "k # removeAll k ks"
  have c: "ctm_inv (keys c) ks" and s: "fmdom' (entries (m_cache c)) = set ks"
    and ns: "nanEntries (m_cache c) = []"
    using assms(1) by (simp_all add: lrw_inv_def)
  have inv2: "lrw_inv c2 ?ks"
    using updateTimeMap_inv[OF c, of k now] s ns by (auto simp: lrw_inv_def c2_def)
  have b2: "maxSize c2 = maxSize c" "maxAge c2 = maxAge c" by (simp_all add: c2_def)
  have set: "SetLRW c (Key k) v now = lruAge_bySize c2"
    using assms(2,3) by (simp add: SetLRW_eq SetLRU_def lruAge_def c2_def Let_def)
  from lruAge_bySize_run[OF lrw_lru_inv[OF inv2]] assms(3) b2
  obtain j where j: "j \<le> length ?ks" "lruAge_bySize c2 = Some ((evictStep ^^ j) c2)"
    "int (len (m_cache ((evictStep ^^ j) c2))) \<le> maxSize c"
    "\<forall>i<j. int (len (m_cache ((evictStep ^^ i) c2))) > maxSize c"
    by (auto simp del: len_0)
  have lenj: "i \<le> length ?ks \<Longrightarrow> len (m_cache ((evictStep ^^ i) c2)) = length ?ks - i" for i
    using lrw_inv_len[OF evict_iter_lrw[OF inv2, of i]] by simp
  have n: "length ?ks - j = min (length ?ks) (nat (maxSize c))"
  proof (cases j)
    case 0
    then show ?thesis using j(3) lenj[of 0] by (simp del: len_0)
  next
    case (Suc i)
    then have "int (len (m_cache ((evictStep ^^ i) c2))) > maxSize c" using j(4) by blast
    moreover have "len (m_cache ((evictStep ^^ i) c2)) = length ?ks - i"
      using lenj[of i] j(1) Suc by simp
    moreover have "len (m_cache ((evictStep ^^ j) c2)) = length ?ks - j"
      using lenj[of j] j(1) by simp
    ultimately show ?thesis using j(1,3) Suc assms(3) by (simp del: len_0)
  qed
  have tk: "take (length ?ks - j) ?ks = ks'"
    unfolding ks'_def n by (simp add: min_def)
  from evict_iter[OF lrw_lru_inv[OF inv2] j(1)] evict_iter_lrw[OF inv2 j(1)]
  have "lrw_inv ((evictStep ^^ j) c2) ks'"
    "maxSize ((evictStep ^^ j) c2) = maxSize c" "maxAge ((evictStep ^^ j) c2) = maxAge c"
    "\<forall>x. fmlookup (entries (m_cache ((evictStep ^^ j) c2))) x =
              (if x \<in> set ks' then fmlookup (entries (m_cache c2)) x else None)"
    unfolding tk b2 by auto
  moreover have "fmlookup (entries (m_cache c2)) x = (if x = k then Some v else fmlookup (entries (m_cache c)) x)" for x
    by (auto simp: c2_def)
  ultimately show ?thesis using set j(2) by (simp del: len_0)
qed

lemma GetLRW_fst:
  "fst (GetLRW c (Key k)) = (case fmlookup (entries (m_cache c)) k of None \<Rightarrow> (0, False) | Some rv \<Rightarrow> (rv, True))"
  by (simp add: GetLRW_def)

lemma GetLRU_fst: "fst (GetLRU c k now) = fst (GetLRW c k)"
  by (simp add: GetLRU_def GetLRW_def Let_def)

lemma oldest_first_lrw:
  "distinct [A, B, C, D] \<and> NewLRWCache k0 v0 2 0 = Inr c0 \<longrightarrow>
     (\<exists>c1 c2 c3 c4.
        SetLRW c0 (Key A) va t1 = Some c1 \<and> SetLRW c1 (Key B) vb t2 = Some c2
      \<and> SetLRW c2 (Key C) vc t3 = Some c3 \<and> SetLRW c3 (Key D) vd t4 = Some c4
      \<and> towardTail (keys c2) = [Key B, Key A]
      \<and> fst (GetLRW c2 (Key A)) = (va, True) \<and> fst (GetLRW c2 (Key B)) = (vb, True)
      \<and> towardTail (keys c3) = [Key C, Key B]
      \<and> fst (GetLRW c3 (Key A)) = (0, False) \<and> fst (GetLRW c3 (Key B)) = (vb, True)
      \<and> fst (GetLRW c3 (Key C)) = (vc, True)
      \<and> towardTail (keys c4) = [Key D, Key C]
      \<and> fst (GetLRW c4 (Key B)) = (0, False) \<and> fst (GetLRW c4 (Key C)) = (vc, True)
      \<and> fst (GetLRW c4 (Key D)) = (vd, True))"
proof
  assume a: "distinct [A, B, C, D] \<and> NewLRWCache k0 v0 2 0 = Inr c0"
  then have d: "A \<noteq> B" "A \<noteq> C" "A \<noteq> D" "B \<noteq> C" "B \<noteq> D" "C \<noteq> D" by auto
  have c0: "c0 = \<lparr>m_cache = makeMap, keys = newCacheTimeMap k0, maxSize = 2, maxAge = 0\<rparr>"
    using a by (simp add: NewLRWCache_def)
  have i0: "lrw_inv c0 []" "maxSize c0 = 2" "maxAge c0 = 0"
    using ctm_inv_new[of k0] by (simp_all add: c0 lrw_inv_def)
  from SetLRW_exact[OF i0(1), of A va t1] i0(2,3)
  obtain c1 where 1: "SetLRW c0 (Key A) va t1 = Some c1" "lrw_inv c1 [A]" "maxSize c1 = 2" "maxAge c1 = 0"
    "\<And>x. fmlookup (entries (m_cache c1)) x = (if x = A then Some va else None)"
    by (auto simp: c0)
  from SetLRW_exact[OF 1(2), of B vb t2] 1(3,4) d
  obtain c2 where 2: "SetLRW c1 (Key B) vb t2 = Some c2" "lrw_inv c2 [B, A]" "maxSize c2 = 2" "maxAge c2 = 0"
    "\<And>x. fmlookup (entries (m_cache c2)) x = (if x \<in> {B, A} then (if x = B then Some vb else fmlookup (entries (m_cache c1)) x) else None)"
    by auto
  from SetLRW_exact[OF 2(2), of C vc t3] 2(3,4) d
  obtain c3 where 3: "SetLRW c2 (Key C) vc t3 = Some c3" "lrw_inv c3 [C, B]" "maxSize c3 = 2" "maxAge c3 = 0"
    "\<And>x. fmlookup (entries (m_cache c3)) x = (if x \<in> {C, B} then (if x = C then Some vc else fmlookup (entries (m_cache c2)) x) else None)"
    by auto
  from SetLRW_exact[OF 3(2), of D vd t4] 3(3,4) d
  obtain c4 where 4: "SetLRW c3 (Key D) vd t4 = Some c4" "lrw_inv c4 [D, C]" "maxSize c4 = 2" "maxAge c4 = 0"
    "\<And>x. fmlookup (entries (m_cache c4)) x = (if x \<in> {D, C} then (if x = D then Some vd else fmlookup (entries (m_cache c3)) x) else None)"
    by auto
  have w: "towardTail (keys c2) = [Key B, Key A]" "towardTail (keys c3) = [Key C, Key B]" "towardTail (keys c4) = [Key D, Key C]"
    using 2(2) 3(2) 4(2) towardTail_inv[of "keys c2" "[B, A]"] towardTail_inv[of "keys c3" "[C, B]"]
      towardTail_inv[of "keys c4" "[D, C]"]
    by (simp_all add: lrw_inv_def)
  have g: "fst (GetLRW c2 (Key A)) = (va, True)" "fst (GetLRW c2 (Key B)) = (vb, True)"
    "fst (GetLRW c3 (Key A)) = (0, False)" "fst (GetLRW c3 (Key B)) = (vb, True)" "fst (GetLRW c3 (Key C)) = (vc, True)"
    "fst (GetLRW c4 (Key B)) = (0, False)" "fst (GetLRW c4 (Key C)) = (vc, True)" "fst (GetLRW c4 (Key D)) = (vd, True)"
    using d by (simp_all add: GetLRW_fst 1(5) 2(5) 3(5) 4(5))
  show "\<exists>c1 c2 c3 c4.
        SetLRW c0 (Key A) va t1 = Some c1 \<and> SetLRW c1 (Key B) vb t2 = Some c2
      \<and> SetLRW c2 (Key C) vc t3 = Some c3 \<and> SetLRW c3 (Key D) vd t4 = Some c4
      \<and> towardTail (keys c2) = [Key B, Key A]
      \<and> fst (GetLRW c2 (Key A)) = (va, True) \<and> fst (GetLRW c2 (Key B)) = (vb, True)
      \<and> towardTail (keys c3) = [Key C, Key B]
      \<and> fst (GetLRW c3 (Key A)) = (0, False) \<and> fst (GetLRW c3 (Key B)) = (vb, True)
      \<and> fst (GetLRW c3 (Key C)) = (vc, True)
      \<and> towardTail (keys c4) = [Key D, Key C]
      \<and> fst (GetLRW c4 (Key B)) = (0, False) \<and> fst (GetLRW c4 (Key C)) = (vc, True)
      \<and> fst (GetLRW c4 (Key D)) = (vd, True)"
    using 1(1) 2(1) 3(1) 4(1) w g by blast
qed

lemma oldest_first_lrw3:
  "distinct [A, B, C, D] \<and> NewLRWCache k0 v0 3 0 = Inr c0 \<longrightarrow>
     (\<exists>c1 c2 c3 c4.
        SetLRW c0 (Key A) va t1 = Some c1 \<and> SetLRW c1 (Key B) vb t2 = Some c2
      \<and> SetLRW c2 (Key C) vc t3 = Some c3 \<and> SetLRW c3 (Key D) vd t4 = Some c4
      \<and> towardTail (keys c3) = [Key C, Key B, Key A]
      \<and> fst (GetLRW c3 (Key A)) = (va, True) \<and> fst (GetLRW c3 (Key B)) = (vb, True)
      \<and> fst (GetLRW c3 (Key C)) = (vc, True)
      \<and> towardTail (keys c4) = [Key D, Key C, Key B]
      \<and> fst (GetLRW c4 (Key A)) = (0, False) \<and> fst (GetLRW c4 (Key B)) = (vb, True)
      \<and> fst (GetLRW c4 (Key C)) = (vc, True) \<and> fst (GetLRW c4 (Key D)) = (vd, True))"
proof
  assume a: "distinct [A, B, C, D] \<and> NewLRWCache k0 v0 3 0 = Inr c0"
  then have d: "A \<noteq> B" "A \<noteq> C" "A \<noteq> D" "B \<noteq> C" "B \<noteq> D" "C \<noteq> D" by auto
  have c0: "c0 = \<lparr>m_cache = makeMap, keys = newCacheTimeMap k0, maxSize = 3, maxAge = 0\<rparr>"
    using a by (simp add: NewLRWCache_def)
  have i0: "lrw_inv c0 []" "maxSize c0 = 3" "maxAge c0 = 0"
    using ctm_inv_new[of k0] by (simp_all add: c0 lrw_inv_def)
  from SetLRW_exact[OF i0(1), of A va t1] i0(2,3)
  obtain c1 where 1: "SetLRW c0 (Key A) va t1 = Some c1" "lrw_inv c1 [A]" "maxSize c1 = 3" "maxAge c1 = 0"
    "\<And>x. fmlookup (entries (m_cache c1)) x = (if x = A then Some va else None)"
    by (auto simp: c0)
  from SetLRW_exact[OF 1(2), of B vb t2] 1(3,4) d
  obtain c2 where 2: "SetLRW c1 (Key B) vb t2 = Some c2" "lrw_inv c2 [B, A]" "maxSize c2 = 3" "maxAge c2 = 0"
    "\<And>x. fmlookup (entries (m_cache c2)) x = (if x \<in> {B, A} then (if x = B then Some vb else fmlookup (entries (m_cache c1)) x) else None)"
    by auto
  from SetLRW_exact[OF 2(2), of C vc t3] 2(3,4) d
  obtain c3 where 3: "SetLRW c2 (Key C) vc t3 = Some c3" "lrw_inv c3 [C, B, A]" "maxSize c3 = 3" "maxAge c3 = 0"
    "\<And>x. fmlookup (entries (m_cache c3)) x = (if x \<in> {C, B, A} then (if x = C then Some vc else fmlookup (entries (m_cache c2)) x) else None)"
    by auto
  from SetLRW_exact[OF 3(2), of D vd t4] 3(3,4) d
  obtain c4 where 4: "SetLRW c3 (Key D) vd t4 = Some c4" "lrw_inv c4 [D, C, B]" "maxSize c4 = 3" "maxAge c4 = 0"
    "\<And>x. fmlookup (entries (m_cache c4)) x = (if x \<in> {D, C, B} then (if x = D then Some vd else fmlookup (entries (m_cache c3)) x) else None)"
    by auto
  have w: "towardTail (keys c3) = [Key C, Key B, Key A]" "towardTail (keys c4) = [Key D, Key C, Key B]"
    using 3(2) 4(2) towardTail_inv[of "keys c3" "[C, B, A]"] towardTail_inv[of "keys c4" "[D, C, B]"]
    by (simp_all add: lrw_inv_def)
  have g: "fst (GetLRW c3 (Key A)) = (va, True)" "fst (GetLRW c3 (Key B)) = (vb, True)" "fst (GetLRW c3 (Key C)) = (vc, True)"
    "fst (GetLRW c4 (Key A)) = (0, False)" "fst (GetLRW c4 (Key B)) = (vb, True)"
    "fst (GetLRW c4 (Key C)) = (vc, True)" "fst (GetLRW c4 (Key D)) = (vd, True)"
    using d by (simp_all add: GetLRW_fst 1(5) 2(5) 3(5) 4(5))
  show "\<exists>c1 c2 c3 c4.
        SetLRW c0 (Key A) va t1 = Some c1 \<and> SetLRW c1 (Key B) vb t2 = Some c2
      \<and> SetLRW c2 (Key C) vc t3 = Some c3 \<and> SetLRW c3 (Key D) vd t4 = Some c4
      \<and> towardTail (keys c3) = [Key C, Key B, Key A]
      \<and> fst (GetLRW c3 (Key A)) = (va, True) \<and> fst (GetLRW c3 (Key B)) = (vb, True)
      \<and> fst (GetLRW c3 (Key C)) = (vc, True)
      \<and> towardTail (keys c4) = [Key D, Key C, Key B]
      \<and> fst (GetLRW c4 (Key A)) = (0, False) \<and> fst (GetLRW c4 (Key B)) = (vb, True)
      \<and> fst (GetLRW c4 (Key C)) = (vc, True) \<and> fst (GetLRW c4 (Key D)) = (vd, True)"
    using 1(1) 2(1) 3(1) 4(1) w g by blast
qed

section \<open>Set and the age bound\<close>

lemma Sub_mono: "a \<le> b \<Longrightarrow> Sub now b \<le> Sub now a"
  by (simp add: Sub_def Let_def maxDuration_def minDuration_def)

lemma ts_sorted_alt:
  "ts_sorted ctm ks T \<longleftrightarrow>
     sorted_wrt (\<lambda>a b. timestamp (getEntry (entries (m_ctm ctm)) b)
                      \<le> timestamp (getEntry (entries (m_ctm ctm)) a)) ks
     \<and> (\<forall>x\<in>set ks. timestamp (getEntry (entries (m_ctm ctm)) x) \<le> T)"
  by (simp add: ts_sorted_def)

lemma sorted_wrt_ts_cong:
  fixes f g :: "'a \<Rightarrow> int"
  assumes "sorted_wrt (\<lambda>a b. f b \<le> f a) xs" "\<forall>x\<in>set xs. g x = f x"
  shows "sorted_wrt (\<lambda>a b. g b \<le> g a) xs"
  using assms by (induction xs) auto

lemma ts_sorted_cong:
  assumes "ts_sorted ctm ks T"
    and "\<forall>x\<in>set ks. timestamp (getEntry (entries (m_ctm ctm')) x) = timestamp (getEntry (entries (m_ctm ctm)) x)"
  shows "ts_sorted ctm' ks T"
  using assms sorted_wrt_ts_cong[of "\<lambda>x. timestamp (getEntry (entries (m_ctm ctm)) x)" ks
      "\<lambda>x. timestamp (getEntry (entries (m_ctm ctm')) x)"]
  by (simp add: ts_sorted_alt)

lemma ts_sorted_take: "ts_sorted ctm ks T \<Longrightarrow> ts_sorted ctm (take n ks) T"
  by (auto simp: ts_sorted_alt sorted_wrt_take dest: in_set_takeD)

lemma ts_sorted_touch:
  assumes "ts_sorted ctm ks T" "T \<le> now"
  shows "ts_sorted (updateTimeMap ctm (Key k) now) (k # removeAll k ks) now"
proof -
  have "ts_sorted ctm (removeAll k ks) T"
    using assms(1) by (simp add: ts_sorted_alt removeAll_filter_not_eq sorted_wrt_filter)
  then have r: "ts_sorted (updateTimeMap ctm (Key k) now) (removeAll k ks) T"
    by (rule ts_sorted_cong) (simp add: updateTimeMap_timestamp)
  let ?ts = "\<lambda>x. timestamp (getEntry (entries (m_ctm (updateTimeMap ctm (Key k) now))) x)"
  have b: "?ts x \<le> now" if "x \<in> set (removeAll k ks)" for x
  proof -
    have "?ts x \<le> T" using r that unfolding ts_sorted_alt by blast
    then show ?thesis using assms(2) by simp
  qed
  have k: "?ts k = now" by (simp add: updateTimeMap_timestamp)
  have s: "sorted_wrt (\<lambda>a b. ?ts b \<le> ?ts a) (removeAll k ks)"
    using r by (simp add: ts_sorted_alt)
  have "\<forall>x\<in>set (k # removeAll k ks). ?ts x \<le> now"
  proof
    fix x assume "x \<in> set (k # removeAll k ks)"
    then show "?ts x \<le> now" using b[of x] k by (cases "x = k") auto
  qed
  moreover have "sorted_wrt (\<lambda>a b. ?ts b \<le> ?ts a) (k # removeAll k ks)"
    using s b k by (simp del: removeAll.simps set_removeAll)
  ultimately show ?thesis unfolding ts_sorted_alt by blast
qed

lemma ts_sorted_last:
  assumes "ts_sorted ctm ks T" "x \<in> set ks"
  shows "timestamp (getEntry (entries (m_ctm ctm)) (last ks)) \<le> timestamp (getEntry (entries (m_ctm ctm)) x)"
proof -
  obtain xs y where ks: "ks = xs @ [y]" using assms(2) by (cases ks rule: rev_cases) auto
  show ?thesis using assms by (auto simp: ks ts_sorted_alt sorted_wrt_append)
qed

lemma lruAge_byAge_exit:
  assumes "lruAge_byAge c now = Some c'"
  shows "sinceOldest (keys c') now < maxAge c' \<or> len (m_cache c') = 0"
proof (rule lruAge_byAge.raw_induct[where
    P="\<lambda>c now c'. sinceOldest (keys c') now < maxAge c' \<or> len (m_cache c') = 0", OF _ assms],
    goal_cases)
  case (1 f c now c')
  then show ?case by (auto simp: Let_def split: if_splits simp del: len_0)
qed

lemma lruAge_fresh:
  assumes "lru_inv c ks" "ts_sorted (keys c) ks T" "maxAge c > 0"
  shows "\<exists>j\<le>length ks. lruAge c now = Some ((evictStep ^^ j) c)
      \<and> (\<forall>x\<in>fmdom' (entries (m_cache ((evictStep ^^ j) c))).
            Sub now (timestamp (getEntry (entries (m_ctm (keys c))) x)) < maxAge c)"
proof -
  from lruAge_byAge_run[OF assms(1,3), of now]
  obtain j1 where j1: "j1 \<le> length ks" "lruAge_byAge c now = Some ((evictStep ^^ j1) c)" by blast
  define c1 where "c1 = (evictStep ^^ j1) c"
  let ?ks1 = "take (length ks - j1) ks"
  from evict_iter[OF assms(1) j1(1)]
  have inv1: "lru_inv c1 ?ks1" and b1: "maxSize c1 = maxSize c" "maxAge c1 = maxAge c"
    and ts1: "\<forall>x\<in>set ?ks1. timestamp (getEntry (entries (m_ctm (keys c1))) x) = timestamp (getEntry (entries (m_ctm (keys c))) x)"
    unfolding c1_def by auto
  have sorted1: "ts_sorted (keys c1) ?ks1 T"
    using ts_sorted_cong[OF ts_sorted_take[OF assms(2)] ts1] .
  have exit1: "sinceOldest (keys c1) now < maxAge c \<or> len (m_cache c1) = 0"
    using lruAge_byAge_exit[OF j1(2)] b1 unfolding c1_def by simp
  obtain j2 where j2: "j2 \<le> length ?ks1"
    "(if maxSize c1 > 0 then lruAge_bySize c1 else Some c1) = Some ((evictStep ^^ j2) c1)"
  proof (cases "maxSize c1 > 0")
    case True
    from lruAge_bySize_run[OF inv1 True] show ?thesis using that True by auto
  next
    case False
    then show ?thesis using that[of 0] by simp
  qed
  have comp: "(evictStep ^^ j2) c1 = (evictStep ^^ (j2 + j1)) c"
    unfolding c1_def by (simp add: funpow_add)
  have a1: "lruAge_byAge c now = Some c1" using j1(2) by (simp add: c1_def)
  have run: "lruAge c now = Some ((evictStep ^^ (j2 + j1)) c)"
    using j2(2) assms(3) unfolding comp by (simp add: lruAge_def a1)
  have fresh: "Sub now (timestamp (getEntry (entries (m_ctm (keys c))) x)) < maxAge c"
    if x: "x \<in> fmdom' (entries (m_cache ((evictStep ^^ j2) c1)))" for x
  proof -
    obtain y where y: "fmlookup (entries (m_cache ((evictStep ^^ j2) c1))) x = Some y"
      using x by (auto simp: fmlookup_dom'_iff)
    have lk: "fmlookup (entries (m_cache ((evictStep ^^ j2) c1))) x =
        (if x \<in> set (take (length ?ks1 - j2) ?ks1) then fmlookup (entries (m_cache c1)) x else None)"
      using evict_iter[OF inv1 j2(1)] by blast
    have t: "x \<in> set (take (length ?ks1 - j2) ?ks1)" and y1: "fmlookup (entries (m_cache c1)) x = Some y"
      using y unfolding lk by (simp_all split: if_splits del: take_take length_take)
    have xin: "x \<in> set ?ks1" using t by (rule in_set_takeD)
    have "x \<in> fmdom' (entries (m_cache c1))" using y1 by (rule fmdom'I)
    then have ne: "fmdom' (entries (m_cache c1)) \<noteq> {}" by blast
    have since: "sinceOldest (keys c1) now < maxAge c" using exit1 ne by simp
    have ne1: "?ks1 \<noteq> []" using xin by auto
    have ci: "ctm_inv (keys c1) ?ks1" using inv1 by (simp add: lru_inv_def)
    have "sinceOldest (keys c1) now = Sub now (timestamp (getEntry (entries (m_ctm (keys c1))) (last ?ks1)))"
      using ci ne1 by (simp add: sinceOldest_def ctm_inv_def)
    moreover have "timestamp (getEntry (entries (m_ctm (keys c1))) (last ?ks1))
                     \<le> timestamp (getEntry (entries (m_ctm (keys c1))) x)"
      by (rule ts_sorted_last[OF sorted1 xin])
    ultimately have "Sub now (timestamp (getEntry (entries (m_ctm (keys c1))) x)) < maxAge c"
      using since Sub_mono[of "timestamp (getEntry (entries (m_ctm (keys c1))) (last ?ks1))"
          "timestamp (getEntry (entries (m_ctm (keys c1))) x)" now] by simp
    then show ?thesis using ts1 xin by simp
  qed
  show ?thesis
    using run j1(1) j2(1) fresh unfolding comp
    by (intro exI[of _ "j2 + j1"]) auto
qed

lemma ts_sorted_later: "ts_sorted ctm ks T \<Longrightarrow> T \<le> T' \<Longrightarrow> ts_sorted ctm ks T'"
  by (fastforce simp: ts_sorted_alt)

lemma SetLRU_fresh:
  fixes c :: "('a::zero, 'v) cache" and k :: 'a and v :: 'v and now :: Time
  assumes "lru_inv c ks" "ts_sorted (keys c) ks T" "T \<le> now"
  shows "\<exists>c' ks'. SetLRU c (Key k) v now = Some c' \<and> lru_inv c' ks' \<and> ts_sorted (keys c') ks' now
      \<and> maxSize c' = maxSize c \<and> maxAge c' = maxAge c
      \<and> (maxAge c > 0 \<longrightarrow>
           (\<forall>x\<in>fmdom' (entries (m_cache c')). Sub now (timestamp (getEntry (entries (m_ctm (keys c'))) x)) < maxAge c))"
proof -
  define c2 where "c2 = c\<lparr>m_cache := mapAssign (m_cache c) (Key k) v,
                            keys := updateTimeMap (keys c) (Key k) now\<rparr>"
  let ?ks = "k # removeAll k ks"
  have c: "ctm_inv (keys c) ks" and s: "fmdom' (entries (m_cache c)) \<subseteq> set ks"
    and ns: "nanEntries (m_cache c) = []"
    using assms(1) by (simp_all add: lru_inv_def)
  have inv2: "lru_inv c2 ?ks"
    using updateTimeMap_inv[OF c, of k now] s ns by (auto simp: lru_inv_def c2_def)
  have sorted2: "ts_sorted (keys c2) ?ks now"
    using ts_sorted_touch[OF assms(2,3), of k] by (simp add: c2_def)
  have b2: "maxSize c2 = maxSize c" "maxAge c2 = maxAge c" by (simp_all add: c2_def)
  have set: "SetLRU c (Key k) v now = lruAge c2 now"
    by (simp add: SetLRU_def c2_def Let_def)
  obtain j where j: "j \<le> length ?ks" "lruAge c2 now = Some ((evictStep ^^ j) c2)"
    "maxAge c > 0 \<longrightarrow> (\<forall>x\<in>fmdom' (entries (m_cache ((evictStep ^^ j) c2))).
            Sub now (timestamp (getEntry (entries (m_ctm (keys c2))) x)) < maxAge c)"
  proof (cases "maxAge c > 0")
    case True
    then show ?thesis using lruAge_fresh[OF inv2 sorted2, of now] that b2 by auto
  next
    case False
    then show ?thesis using lruAge_run[OF inv2, of now] that by auto
  qed
  let ?c' = "(evictStep ^^ j) c2"
  let ?ks' = "take (length ?ks - j) ?ks"
  from evict_iter[OF inv2 j(1)]
  have inv': "lru_inv ?c' ?ks'" and b': "maxSize ?c' = maxSize c2" "maxAge ?c' = maxAge c2"
    and ts': "\<forall>x\<in>set ?ks'. timestamp (getEntry (entries (m_ctm (keys ?c'))) x) = timestamp (getEntry (entries (m_ctm (keys c2))) x)"
    by auto
  have sorted': "ts_sorted (keys ?c') ?ks' now"
    using ts_sorted_cong[OF ts_sorted_take[OF sorted2] ts'] .
  have sub: "fmdom' (entries (m_cache ?c')) \<subseteq> set ?ks'" using inv' by (simp add: lru_inv_def)
  have "maxAge c > 0 \<longrightarrow> (\<forall>x\<in>fmdom' (entries (m_cache ?c')).
            Sub now (timestamp (getEntry (entries (m_ctm (keys ?c'))) x)) < maxAge c)"
  proof (intro impI ballI)
    fix x assume a: "0 < maxAge c" and x: "x \<in> fmdom' (entries (m_cache ?c'))"
    have "x \<in> set ?ks'" using sub x by blast
    then have "timestamp (getEntry (entries (m_ctm (keys ?c'))) x) = timestamp (getEntry (entries (m_ctm (keys c2))) x)"
      using ts' by blast
    then show "Sub now (timestamp (getEntry (entries (m_ctm (keys ?c'))) x)) < maxAge c"
      using j(3) a x by simp
  qed
  then show ?thesis
    using set j(2) inv' sorted' b' b2 by (intro exI[of _ ?c'] exI[of _ ?ks']) simp
qed

lemma lru_run_inv:
  "lru_run sz age T c \<Longrightarrow>
     maxSize c = sz \<and> maxAge c = age \<and> (\<exists>ks. lru_inv c ks \<and> ts_sorted (keys c) ks T)"
proof (induction rule: lru_run.induct)
  case (lru_run_new k v sz age c T)
  then have "lru_inv c [] \<and> ts_sorted (keys c) [] T"
    using ctm_inv_new[of k] by (auto simp: NewLRUCache_def lru_inv_def ts_sorted_alt split: if_splits)
  then show ?case using lru_run_new by (auto simp: NewLRUCache_def split: if_splits)
next
  case (lru_run_set sz age T c now k v c')
  then obtain ks where ks: "lru_inv c ks" "ts_sorted (keys c) ks T" by blast
  from SetLRU_fresh[OF ks lru_run_set(2), of k v] lru_run_set show ?case by auto
next
  case (lru_run_get sz age T c now k)
  then obtain ks where ks: "lru_inv c ks" "ts_sorted (keys c) ks T" by blast
  have "ts_sorted (keys (snd (GetLRU c (Key k) now))) (k # removeAll k ks) now"
    using ts_sorted_touch[OF ks(2) lru_run_get(2), of k] by (simp add: GetLRU_def Let_def)
  then show ?case using GetLRU_inv[OF ks(1), of k now] lru_run_get by auto
qed

lemma lrw_run_inv:
  "lrw_run sz age T c \<Longrightarrow>
     maxSize c = sz \<and> maxAge c = age \<and> (\<exists>ks. lru_inv c ks \<and> ts_sorted (keys c) ks T)"
proof (induction rule: lrw_run.induct)
  case (lrw_run_new k v sz age c T)
  then have "lru_inv c [] \<and> ts_sorted (keys c) [] T"
    using ctm_inv_new[of k] by (auto simp: NewLRWCache_def lru_inv_def ts_sorted_alt split: if_splits)
  then show ?case using lrw_run_new by (auto simp: NewLRWCache_def split: if_splits)
next
  case (lrw_run_set sz age T c now k v c')
  then obtain ks where ks: "lru_inv c ks" "ts_sorted (keys c) ks T" by blast
  from SetLRU_fresh[OF ks lrw_run_set(2), of k v] lrw_run_set show ?case
    by (auto simp: SetLRW_eq)
next
  case (lrw_run_get sz age T c now k)
  then show ?case using ts_sorted_later by (fastforce simp: GetLRW_def)
qed

text \<open>
  What \<open>Set\<close> does for the age bound, in both caches: in a run whose times never
  decrease, with \<open>maxAge > 0\<close>, \<open>Set\<close> returns, and afterwards every key of the values
  map has a timestamp less than \<open>maxAge\<close> before the time of the call.
\<close>

lemma Set_leaves_fresh_entries:
  "(lru_run sz age T c \<and> 0 < age \<and> T \<le> now \<longrightarrow>
      (\<exists>c'. SetLRU c (Key a) v now = Some c'
          \<and> (\<forall>k\<in>keysOf (m_cache c').
                Sub now (timestamp (getKey (m_ctm (keys c')) k)) < age)))
   \<and> (lrw_run sz age T c \<and> 0 < age \<and> T \<le> now \<longrightarrow>
      (\<exists>c'. SetLRW c (Key a) v now = Some c'
          \<and> (\<forall>k\<in>keysOf (m_cache c').
                Sub now (timestamp (getKey (m_ctm (keys c')) k)) < age)))"
proof -
  have main: "\<exists>c'. SetLRU c (Key a) v now = Some c'
          \<and> (\<forall>k\<in>keysOf (m_cache c').
                Sub now (timestamp (getKey (m_ctm (keys c')) k)) < age)"
    if ks: "lru_inv c ks" "ts_sorted (keys c) ks T" and m: "maxAge c = age"
      and a: "0 < age" "T \<le> now" for ks
  proof -
    from SetLRU_fresh[OF ks a(2), of a v] m a(1)
    obtain c' ks' where c': "SetLRU c (Key a) v now = Some c'" "lru_inv c' ks'"
      "\<forall>x\<in>fmdom' (entries (m_cache c')).
          Sub now (timestamp (getEntry (entries (m_ctm (keys c'))) x)) < age"
      by auto
    have n: "nanEntries (m_cache c') = []" using c'(2) by (simp add: lru_inv_def)
    have "\<forall>k\<in>keysOf (m_cache c'). Sub now (timestamp (getKey (m_ctm (keys c')) k)) < age"
      using c'(3) n by (auto simp: keysOf_def)
    then show ?thesis using c'(1) by blast
  qed
  show ?thesis
  proof (rule conjI; rule impI)
    assume a: "lru_run sz age T c \<and> 0 < age \<and> T \<le> now"
    then obtain ks where ks: "lru_inv c ks" "ts_sorted (keys c) ks T" and m: "maxAge c = age"
      using lru_run_inv[of sz age T c] by blast
    show "\<exists>c'. SetLRU c (Key a) v now = Some c'
          \<and> (\<forall>k\<in>keysOf (m_cache c').
                Sub now (timestamp (getKey (m_ctm (keys c')) k)) < age)"
      using main[OF ks m] a by blast
  next
    assume a: "lrw_run sz age T c \<and> 0 < age \<and> T \<le> now"
    then obtain ks where ks: "lru_inv c ks" "ts_sorted (keys c) ks T" and m: "maxAge c = age"
      using lrw_run_inv[of sz age T c] by blast
    show "\<exists>c'. SetLRW c (Key a) v now = Some c'
          \<and> (\<forall>k\<in>keysOf (m_cache c').
                Sub now (timestamp (getKey (m_ctm (keys c')) k)) < age)"
      using main[OF ks m] a unfolding SetLRW_eq by blast
  qed
qed

section \<open>States reached with any keys\<close>

lemma removeOldest_len0:
  "len (m_ctm (snd (removeOldest ctm))) = 0
   \<Longrightarrow> first (snd (removeOldest ctm)) = zeroKey \<and> last_ctm (snd (removeOldest ctm)) = zeroKey"
  by (auto simp: removeOldest_def Let_def simp del: len_0 split: if_splits)

lemma ctm_reachable_ends:
  "ctm_reachable P ctm \<Longrightarrow> len (m_ctm ctm) = 0
   \<Longrightarrow> first ctm = zeroKey \<and> last_ctm ctm = zeroKey"
proof (induction rule: ctm_reachable.induct)
  case (ctm_new P k)
  then show ?case by (simp add: newCacheTimeMap_def)
next
  case (ctm_touch P ctm k t)
  then show ?case using updateTimeMap_len[of ctm k t] by (simp del: len_0 updateTimeMap_len)
next
  case (ctm_evict P ctm)
  then show ?case using removeOldest_len0[of ctm] by blast
qed

lemma ctm_reachable_mono:
  "ctm_reachable P ctm \<Longrightarrow> (\<And>k. P k \<Longrightarrow> Q k) \<Longrightarrow> ctm_reachable Q ctm"
  by (induction rule: ctm_reachable.induct) (auto intro: ctm_reachable.intros)

lemma lruAge_bySize_post:
  assumes "lruAge_bySize c = Some c'"
  shows "maxSize c' = maxSize c \<and> maxAge c' = maxAge c \<and> int (len (m_cache c')) \<le> maxSize c'"
proof (rule lruAge_bySize.raw_induct[where
    P="\<lambda>c c'. maxSize c' = maxSize c \<and> maxAge c' = maxAge c \<and> int (len (m_cache c')) \<le> maxSize c'",
    OF _ assms], goal_cases)
  case (1 f c c')
  show ?case
  proof (cases "int (len (m_cache c)) > maxSize c")
    case True
    then have "f (c\<lparr>keys := snd (removeOldest (keys c)),
                    m_cache := mapDelete (m_cache c) (fst (removeOldest (keys c)))\<rparr>) = Some c'"
      using 1(2) by (simp add: Let_def del: len_0)
    from 1(1)[OF this] show ?thesis by (simp del: len_0)
  next
    case False
    then show ?thesis using 1(2) by (auto simp del: len_0)
  qed
qed

lemma lruAge_byAge_post:
  assumes "lruAge_byAge c now = Some c'"
  shows "maxSize c' = maxSize c \<and> maxAge c' = maxAge c"
proof (rule lruAge_byAge.raw_induct[where
    P="\<lambda>c now c'. maxSize c' = maxSize c \<and> maxAge c' = maxAge c", OF _ assms], goal_cases)
  case (1 f c now c')
  show ?case
  proof (cases "sinceOldest (keys c) now < maxAge c")
    case True
    then show ?thesis using 1(2) by (auto simp: Let_def simp del: len_0)
  next
    case False
    let ?c1 = "c\<lparr>keys := snd (removeOldest (keys c)),
                  m_cache := mapDelete (m_cache c) (fst (removeOldest (keys c)))\<rparr>"
    show ?thesis
    proof (cases "len (m_cache ?c1) = 0")
      case True
      then have "c' = ?c1" using 1(2) False by (simp add: Let_def del: len_0)
      then show ?thesis by simp
    next
      case nz: False
      then have "f ?c1 now = Some c'" using 1(2) False by (simp add: Let_def del: len_0)
      from 1(1)[OF this] show ?thesis by simp
    qed
  qed
qed

lemma lruAge_post:
  assumes "lruAge c now = Some c'"
  shows "maxSize c' = maxSize c \<and> maxAge c' = maxAge c
       \<and> (0 < maxSize c \<longrightarrow> int (len (m_cache c')) \<le> maxSize c)"
proof -
  obtain c1 where c1: "(if maxAge c > 0 then lruAge_byAge c now else Some c) = Some c1"
    "(if maxSize c1 > 0 then lruAge_bySize c1 else Some c1) = Some c'"
    using assms by (auto simp: lruAge_def split: option.splits)
  have b1: "maxSize c1 = maxSize c \<and> maxAge c1 = maxAge c"
    using c1(1) lruAge_byAge_post[of c now c1] by (auto split: if_splits)
  show ?thesis
    using c1(2) b1 lruAge_bySize_post[of c1 c'] by (auto split: if_splits simp del: len_0)
qed

lemma SetLRU_post:
  assumes "SetLRU c k v now = Some c'"
  shows "maxSize c' = maxSize c \<and> maxAge c' = maxAge c
       \<and> (0 < maxSize c \<longrightarrow> int (len (m_cache c')) \<le> maxSize c)"
  using assms lruAge_post[of "c\<lparr>m_cache := mapAssign (m_cache c) k v,
      keys := updateTimeMap (keys c) k now\<rparr>" now c']
  by (simp add: SetLRU_def Let_def del: len_0)

lemma lru_reachable_bounds:
  "lru_reachable P sz age c \<Longrightarrow> maxSize c = sz \<and> maxAge c = age"
proof (induction rule: lru_reachable.induct)
  case (lru_new k v sz age c P)
  then show ?case by (auto simp: NewLRUCache_def split: if_splits)
next
  case (lru_set P sz age c k v now c')
  then show ?case using SetLRU_post[of c k v now c'] by simp
next
  case (lru_get P sz age c k now)
  then show ?case by simp
qed

lemma lrw_reachable_bounds:
  "lrw_reachable P sz age c \<Longrightarrow> maxSize c = sz \<and> maxAge c = age"
proof (induction rule: lrw_reachable.induct)
  case (lrw_new k v sz age c P)
  then show ?case by (auto simp: NewLRWCache_def split: if_splits)
next
  case (lrw_set P sz age c k v now c')
  then have "SetLRU c k v now = Some c'" by (simp add: SetLRW_eq)
  then show ?case using SetLRU_post[of c k v now c'] lrw_set by simp
next
  case (lrw_get P sz age c k)
  then show ?case by (simp add: GetLRW_def)
qed

section \<open>The claims\<close>

text \<open>
  C1. For a cache of either variant constructed with \<open>maxSize > 0\<close>, in every state
  reached by \<open>Set\<close> and \<open>Get\<close> calls at any keys, whenever a \<open>Set\<close> call returns
  it leaves at most \<open>maxSize\<close> entries in the values map. When all the keys used are
  equal to themselves the \<open>Set\<close> call does return.
\<close>

theorem C1_size_bound:
  "(lru_reachable anyKey sz age c \<and> 0 < sz \<and> SetLRU c k v now = Some c'
      \<longrightarrow> int (len (m_cache c')) \<le> sz)
   \<and> (lrw_reachable anyKey sz age c \<and> 0 < sz \<and> SetLRW c k v now = Some c'
      \<longrightarrow> int (len (m_cache c')) \<le> sz)
   \<and> (lru_reachable selfEq sz age c \<and> selfEq k \<longrightarrow> (\<exists>c2. SetLRU c k v now = Some c2))
   \<and> (lrw_reachable selfEq sz age c \<and> selfEq k \<longrightarrow> (\<exists>c2. SetLRW c k v now = Some c2))"
proof (intro conjI impI)
  assume a: "lru_reachable anyKey sz age c \<and> 0 < sz \<and> SetLRU c k v now = Some c'"
  then have "maxSize c = sz" using lru_reachable_bounds[of anyKey sz age c] by simp
  then show "int (len (m_cache c')) \<le> sz"
    using a SetLRU_post[of c k v now c'] by (simp del: len_0)
next
  assume a: "lrw_reachable anyKey sz age c \<and> 0 < sz \<and> SetLRW c k v now = Some c'"
  then have "maxSize c = sz" using lrw_reachable_bounds[of anyKey sz age c] by simp
  moreover have "SetLRU c k v now = Some c'" using a by (simp add: SetLRW_eq)
  ultimately show "int (len (m_cache c')) \<le> sz"
    using a SetLRU_post[of c k v now c'] by (simp del: len_0)
next
  assume a: "lru_reachable selfEq sz age c \<and> selfEq k"
  then obtain ks where ks: "lru_inv c ks" using lru_reachable_inv[of sz age c] by blast
  obtain x where x: "k = Key x" using a by (cases k) auto
  show "\<exists>c2. SetLRU c k v now = Some c2"
    using SetLRU_run[OF ks, of x v now] unfolding x by blast
next
  assume a: "lrw_reachable selfEq sz age c \<and> selfEq k"
  then obtain ks where ks: "lrw_inv c ks" using lrw_reachable_inv[of sz age c] by blast
  obtain x where x: "k = Key x" using a by (cases k) auto
  show "\<exists>c2. SetLRW c k v now = Some c2"
    using SetLRW_run[OF ks, of x v now] unfolding x by blast
qed

theorem C1_size_bound_witness:
  "lru_reachable anyKey 1 0 \<lparr>m_cache = GoMap (fmupd (1::int) (10::int) fmempty) [], keys = \<lparr>m_ctm = GoMap (fmupd 1 \<lparr>prev = Key 1, next = Key 1, timestamp = 5\<rparr> fmempty) [], first = Key 1, last_ctm = Key 1\<rparr>, maxSize = 1, maxAge = 0\<rparr>
   \<and> SetLRU \<lparr>m_cache = GoMap (fmupd (1::int) (10::int) fmempty) [], keys = \<lparr>m_ctm = GoMap (fmupd 1 \<lparr>prev = Key 1, next = Key 1, timestamp = 5\<rparr> fmempty) [], first = Key 1, last_ctm = Key 1\<rparr>, maxSize = 1, maxAge = 0\<rparr> (Key 2) 20 6 = Some \<lparr>m_cache = GoMap (fmupd (2::int) (20::int) fmempty) [], keys = \<lparr>m_ctm = GoMap (fmupd 2 \<lparr>prev = Key 2, next = Key 2, timestamp = 6\<rparr> fmempty) [], first = Key 2, last_ctm = Key 2\<rparr>, maxSize = 1, maxAge = 0\<rparr>
   \<and> int (len (m_cache \<lparr>m_cache = GoMap (fmupd (2::int) (20::int) fmempty) [], keys = \<lparr>m_ctm = GoMap (fmupd 2 \<lparr>prev = Key 2, next = Key 2, timestamp = 6\<rparr> fmempty) [], first = Key 2, last_ctm = Key 2\<rparr>, maxSize = 1, maxAge = 0\<rparr>)) \<le> 1
   \<and> lrw_reachable anyKey 1 0 \<lparr>m_cache = GoMap (fmempty) [((0::int), (7::int))], keys = \<lparr>m_ctm = GoMap (fmempty) [(0, \<lparr>prev = NaN 0, next = NaN 0, timestamp = 5\<rparr>)], first = NaN 0, last_ctm = NaN 0\<rparr>, maxSize = 1, maxAge = 0\<rparr>
   \<and> SetLRW \<lparr>m_cache = GoMap (fmempty) [((0::int), (7::int))], keys = \<lparr>m_ctm = GoMap (fmempty) [(0, \<lparr>prev = NaN 0, next = NaN 0, timestamp = 5\<rparr>)], first = NaN 0, last_ctm = NaN 0\<rparr>, maxSize = 1, maxAge = 0\<rparr> (Key 0) 8 6 = Some \<lparr>m_cache = GoMap (fmempty) [((0::int), (7::int))], keys = \<lparr>m_ctm = GoMap (fmempty) [(0, \<lparr>prev = NaN 0, next = NaN 0, timestamp = 5\<rparr>), (0, \<lparr>prev = Key 0, next = Key 0, timestamp = 0\<rparr>)], first = Key 0, last_ctm = Key 0\<rparr>, maxSize = 1, maxAge = 0\<rparr>
   \<and> int (len (m_cache \<lparr>m_cache = GoMap (fmempty) [((0::int), (7::int))], keys = \<lparr>m_ctm = GoMap (fmempty) [(0, \<lparr>prev = NaN 0, next = NaN 0, timestamp = 5\<rparr>), (0, \<lparr>prev = Key 0, next = Key 0, timestamp = 0\<rparr>)], first = Key 0, last_ctm = Key 0\<rparr>, maxSize = 1, maxAge = 0\<rparr>)) \<le> 1
   \<and> lru_reachable selfEq 1 0 \<lparr>m_cache = GoMap (fmupd (1::int) (10::int) fmempty) [], keys = \<lparr>m_ctm = GoMap (fmupd 1 \<lparr>prev = Key 1, next = Key 1, timestamp = 5\<rparr> fmempty) [], first = Key 1, last_ctm = Key 1\<rparr>, maxSize = 1, maxAge = 0\<rparr>
   \<and> lrw_reachable selfEq 1 0 \<lparr>m_cache = GoMap (fmupd (1::int) (10::int) fmempty) [], keys = \<lparr>m_ctm = GoMap (fmupd 1 \<lparr>prev = Key 1, next = Key 1, timestamp = 5\<rparr> fmempty) [], first = Key 1, last_ctm = Key 1\<rparr>, maxSize = 1, maxAge = 0\<rparr>
   \<and> (\<exists>c2. SetLRU \<lparr>m_cache = GoMap (fmupd (1::int) (10::int) fmempty) [], keys = \<lparr>m_ctm = GoMap (fmupd 1 \<lparr>prev = Key 1, next = Key 1, timestamp = 5\<rparr> fmempty) [], first = Key 1, last_ctm = Key 1\<rparr>, maxSize = 1, maxAge = 0\<rparr> (Key 2) 20 6 = Some c2)
   \<and> (\<exists>c2. SetLRW \<lparr>m_cache = GoMap (fmupd (1::int) (10::int) fmempty) [], keys = \<lparr>m_ctm = GoMap (fmupd 1 \<lparr>prev = Key 1, next = Key 1, timestamp = 5\<rparr> fmempty) [], first = Key 1, last_ctm = Key 1\<rparr>, maxSize = 1, maxAge = 0\<rparr> (Key 2) 20 6 = Some c2)"
proof -
  let ?c0 = "\<lparr>m_cache = (makeMap :: (int, int) gomap), keys = newCacheTimeMap (Key (0::int)), maxSize = 1, maxAge = 0\<rparr>"
  let ?c1 = "\<lparr>m_cache = GoMap (fmupd (1::int) (10::int) fmempty) [], keys = \<lparr>m_ctm = GoMap (fmupd 1 \<lparr>prev = Key 1, next = Key 1, timestamp = 5\<rparr> fmempty) [], first = Key 1, last_ctm = Key 1\<rparr>, maxSize = 1, maxAge = 0\<rparr>"
  let ?c2 = "\<lparr>m_cache = GoMap (fmupd (2::int) (20::int) fmempty) [], keys = \<lparr>m_ctm = GoMap (fmupd 2 \<lparr>prev = Key 2, next = Key 2, timestamp = 6\<rparr> fmempty) [], first = Key 2, last_ctm = Key 2\<rparr>, maxSize = 1, maxAge = 0\<rparr>"
  let ?n1 = "\<lparr>m_cache = GoMap (fmempty) [((0::int), (7::int))], keys = \<lparr>m_ctm = GoMap (fmempty) [(0, \<lparr>prev = NaN 0, next = NaN 0, timestamp = 5\<rparr>)], first = NaN 0, last_ctm = NaN 0\<rparr>, maxSize = 1, maxAge = 0\<rparr>"
  let ?n2 = "\<lparr>m_cache = GoMap (fmempty) [((0::int), (7::int))], keys = \<lparr>m_ctm = GoMap (fmempty) [(0, \<lparr>prev = NaN 0, next = NaN 0, timestamp = 5\<rparr>), (0, \<lparr>prev = Key 0, next = Key 0, timestamp = 0\<rparr>)], first = Key 0, last_ctm = Key 0\<rparr>, maxSize = 1, maxAge = 0\<rparr>"
  have u0: "lru_reachable P 1 0 ?c0" for P
    by (rule lru_new[of "Key 0" 0]) (simp add: NewLRUCache_def)
  have w0: "lrw_reachable P 1 0 ?c0" for P
    by (rule lrw_new[of "Key 0" 0]) (simp add: NewLRWCache_def)
  have s1: "SetLRU ?c0 (Key 1) 10 5 = Some ?c1" by (simp add: cache_evals)
  have u1: "lru_reachable anyKey 1 0 ?c1"
    by (rule lru_set[OF u0 _ s1]) (simp add: anyKey_def)
  have v1: "lru_reachable selfEq 1 0 ?c1"
    by (rule lru_set[OF u0 _ s1]) simp
  have s1w: "SetLRW ?c0 (Key 1) 10 5 = Some ?c1" by (simp add: cache_evals)
  have w1: "lrw_reachable selfEq 1 0 ?c1"
    by (rule lrw_set[OF w0 _ s1w]) simp
  have s2: "SetLRU ?c1 (Key 2) 20 6 = Some ?c2"
    by (simp add: cache_evals fmdrop_fmupd)
  have t1: "SetLRW ?c0 (NaN 0) 7 5 = Some ?n1" by (simp add: cache_evals)
  have x1: "lrw_reachable anyKey 1 0 ?n1"
    by (rule lrw_set[OF w0 _ t1]) (simp add: anyKey_def)
  have t2: "SetLRW ?n1 (Key 0) 8 6 = Some ?n2"
    by (simp add: cache_evals fmdrop_fmupd)
  show ?thesis
    using u1 v1 w1 x1 s2 t2 C1_size_bound[of 1 0 ?c1 "Key 2" 20 6 ?c2]
      C1_size_bound[of 1 0 ?n1 "Key 0" 8 6 ?n2]
    by (simp del: len_0)
qed

text \<open>
  C2. After every \<open>Set\<close> and \<open>Get\<close> each key of the values map should be younger
  than \<open>maxAge\<close>. \<open>Set\<close> ensures it (\<open>Set_leaves_fresh_entries\<close>), but
  \<open>GetLRW\<close> and \<open>GetLRU\<close> do not run the ageing loops. With \<open>maxSize = 5\<close> and
  \<open>maxAge = 50\<close>, after \<open>Set(1, 10)\<close> at time 0: \<open>GetLRW(1)\<close> at any later time
  returns \<open>(10, true)\<close> and leaves key 1 with timestamp 0; \<open>GetLRU(2)\<close> at time 100
  leaves key 1 in the values map with timestamp 0, and \<open>100 - 0\<close> is not below
  \<open>maxAge\<close>. The next \<open>Set\<close>, at time 100, does drop key 1.
\<close>

theorem C2_get_keeps_stale_entry:
  "SetLRW \<lparr>m_cache = (makeMap :: (int, int) gomap), keys = newCacheTimeMap (Key (0::int)), maxSize = 5, maxAge = 50\<rparr> (Key 1) 10 0 =
     Some \<lparr>m_cache = GoMap (fmupd (1::int) (10::int) fmempty) [], keys = \<lparr>m_ctm = GoMap (fmupd 1 \<lparr>prev = Key 1, next = Key 1, timestamp = 0\<rparr> fmempty) [], first = Key 1, last_ctm = Key 1\<rparr>, maxSize = 5, maxAge = 50\<rparr>
   \<and> GetLRW \<lparr>m_cache = GoMap (fmupd (1::int) (10::int) fmempty) [], keys = \<lparr>m_ctm = GoMap (fmupd 1 \<lparr>prev = Key 1, next = Key 1, timestamp = 0\<rparr> fmempty) [], first = Key 1, last_ctm = Key 1\<rparr>, maxSize = 5, maxAge = 50\<rparr> (Key 1) =
       ((10, True),
        \<lparr>m_cache = GoMap (fmupd (1::int) (10::int) fmempty) [], keys = \<lparr>m_ctm = GoMap (fmupd 1 \<lparr>prev = Key 1, next = Key 1, timestamp = 0\<rparr> fmempty) [], first = Key 1, last_ctm = Key 1\<rparr>, maxSize = 5, maxAge = 50\<rparr>)
   \<and> SetLRU \<lparr>m_cache = (makeMap :: (int, int) gomap), keys = newCacheTimeMap (Key (0::int)), maxSize = 5, maxAge = 50\<rparr> (Key 1) 10 0 =
     Some \<lparr>m_cache = GoMap (fmupd (1::int) (10::int) fmempty) [], keys = \<lparr>m_ctm = GoMap (fmupd 1 \<lparr>prev = Key 1, next = Key 1, timestamp = 0\<rparr> fmempty) [], first = Key 1, last_ctm = Key 1\<rparr>, maxSize = 5, maxAge = 50\<rparr>
   \<and> fst (GetLRU \<lparr>m_cache = GoMap (fmupd (1::int) (10::int) fmempty) [], keys = \<lparr>m_ctm = GoMap (fmupd 1 \<lparr>prev = Key 1, next = Key 1, timestamp = 0\<rparr> fmempty) [], first = Key 1, last_ctm = Key 1\<rparr>, maxSize = 5, maxAge = 50\<rparr> (Key 2) 100) = (0, False)
   \<and> mapLookup (m_cache (snd (GetLRU \<lparr>m_cache = GoMap (fmupd (1::int) (10::int) fmempty) [], keys = \<lparr>m_ctm = GoMap (fmupd 1 \<lparr>prev = Key 1, next = Key 1, timestamp = 0\<rparr> fmempty) [], first = Key 1, last_ctm = Key 1\<rparr>, maxSize = 5, maxAge = 50\<rparr> (Key 2) 100))) (Key 1) = Some 10
   \<and> timestamp (getKey (m_ctm (keys (snd (GetLRU \<lparr>m_cache = GoMap (fmupd (1::int) (10::int) fmempty) [], keys = \<lparr>m_ctm = GoMap (fmupd 1 \<lparr>prev = Key 1, next = Key 1, timestamp = 0\<rparr> fmempty) [], first = Key 1, last_ctm = Key 1\<rparr>, maxSize = 5, maxAge = 50\<rparr> (Key 2) 100)))) (Key 1)) = 0
   \<and> \<not> Sub 100 0 < 50
   \<and> SetLRW \<lparr>m_cache = GoMap (fmupd (1::int) (10::int) fmempty) [], keys = \<lparr>m_ctm = GoMap (fmupd 1 \<lparr>prev = Key 1, next = Key 1, timestamp = 0\<rparr> fmempty) [], first = Key 1, last_ctm = Key 1\<rparr>, maxSize = 5, maxAge = 50\<rparr> (Key 2) 20 100 =
     Some \<lparr>m_cache = GoMap (fmupd (2::int) (20::int) fmempty) [], keys = \<lparr>m_ctm = GoMap (fmupd 2 \<lparr>prev = Key 2, next = Key 2, timestamp = 100\<rparr> fmempty) [], first = Key 2, last_ctm = Key 2\<rparr>, maxSize = 5, maxAge = 50\<rparr>"
  by (simp add: cache_evals fmdrop_fmupd)

text \<open>
  C3. In the LRU cache \<open>Get\<close> touches the index whether or not the key has a value:
  when the key is absent from the values map (the lookup misses, or no entry has that
  key), \<open>Get\<close> returns the zero value and \<open>false\<close>, and afterwards the key is in the
  node map of the index and still absent from the values map. This holds in every cache
  state and for every key, the empty cache included.
\<close>

theorem C3_get_phantom:
  "snd (GetLRU c k now) = c\<lparr>keys := updateTimeMap (keys c) k now\<rparr>
   \<and> (mapLookup (m_cache c) k = None \<longrightarrow>
        fst (GetLRU c k now) = (0, False)
        \<and> k \<in> keysOf (m_ctm (keys (snd (GetLRU c k now))))
        \<and> mapLookup (m_cache (snd (GetLRU c k now))) k = None)
   \<and> (k \<notin> keysOf (m_cache c) \<longrightarrow>
        fst (GetLRU c k now) = (0, False)
        \<and> k \<in> keysOf (m_ctm (keys (snd (GetLRU c k now))))
        \<and> k \<notin> keysOf (m_cache (snd (GetLRU c k now))))"
proof -
  have n: "k \<notin> keysOf (m_cache c) \<Longrightarrow> mapLookup (m_cache c) k = None"
    by (cases k) (auto dest: fmdom'_notD)
  show ?thesis
    using updateTimeMap_dom[of k "keys c" now] n
    by (auto simp: GetLRU_def Let_def)
qed

theorem C3_get_phantom_witness:
  "NewLRUCache (Key (0::int)) (0::int) 5 1000000000 =
     Inr \<lparr>m_cache = (makeMap :: (int, int) gomap), keys = newCacheTimeMap (Key (0::int)), maxSize = 5, maxAge = 1000000000\<rparr>
   \<and> mapLookup (m_cache \<lparr>m_cache = (makeMap :: (int, int) gomap), keys = newCacheTimeMap (Key (0::int)), maxSize = 5, maxAge = 1000000000\<rparr>) (Key 99) = None
   \<and> Key 99 \<notin> keysOf (m_cache \<lparr>m_cache = (makeMap :: (int, int) gomap), keys = newCacheTimeMap (Key (0::int)), maxSize = 5, maxAge = 1000000000\<rparr>)
   \<and> GetLRU \<lparr>m_cache = (makeMap :: (int, int) gomap), keys = newCacheTimeMap (Key (0::int)), maxSize = 5, maxAge = 1000000000\<rparr> (Key 99) 7 =
       ((0::int, False),
        \<lparr>m_cache = makeMap, keys = \<lparr>m_ctm = GoMap (fmupd 99 \<lparr>prev = Key 99, next = Key 99, timestamp = 7\<rparr> fmempty) [], first = Key 99, last_ctm = Key 99\<rparr>, maxSize = 5, maxAge = 1000000000\<rparr>)
   \<and> Key 99 \<in> keysOf (m_ctm (keys (snd (GetLRU \<lparr>m_cache = (makeMap :: (int, int) gomap), keys = newCacheTimeMap (Key (0::int)), maxSize = 5, maxAge = 1000000000\<rparr> (Key 99) 7))))
   \<and> Key 99 \<notin> keysOf (m_cache (snd (GetLRU \<lparr>m_cache = (makeMap :: (int, int) gomap), keys = newCacheTimeMap (Key (0::int)), maxSize = 5, maxAge = 1000000000\<rparr> (Key 99) 7)))"
  using C3_get_phantom[of "\<lparr>m_cache = (makeMap :: (int, int) gomap), keys = newCacheTimeMap (Key (0::int)), maxSize = 5, maxAge = 1000000000\<rparr>" "Key 99" 7]
  by (simp add: cache_evals)

text \<open>
  C4 (amended). \<open>removeOldest\<close> has one result, the key. On a reachable index whose
  node map is empty it returns the zero key and leaves the index as it was; on a
  reachable index that is not empty it returns \<open>last\<close>. So the result is the zero key
  if and only if the index was empty or its \<open>last\<close> is the zero key: the returned key
  tells the empty index from a real eviction exactly when the tail is not the zero key.
  When all the keys used are equal to themselves, \<open>last\<close> of a non-empty index is a key
  of the node map and \<open>removeOldest\<close> removes exactly that key.
\<close>

theorem C4_removeOldest_empty:
  "(ctm_reachable anyKey ctm \<longrightarrow>
      (len (m_ctm ctm) = 0 \<longrightarrow> removeOldest ctm = (zeroKey, ctm))
      \<and> (len (m_ctm ctm) \<noteq> 0 \<longrightarrow> fst (removeOldest ctm) = last_ctm ctm)
      \<and> (fst (removeOldest ctm) = zeroKey
            \<longleftrightarrow> len (m_ctm ctm) = 0 \<or> last_ctm ctm = zeroKey))
   \<and> (ctm_reachable selfEq ctm \<and> len (m_ctm ctm) \<noteq> 0 \<longrightarrow>
        last_ctm ctm \<in> keysOf (m_ctm ctm)
        \<and> keysOf (m_ctm (snd (removeOldest ctm))) = keysOf (m_ctm ctm) - {last_ctm ctm})"
proof (rule conjI; rule impI)
  assume r: "ctm_reachable anyKey ctm"
  have f: "fst (removeOldest ctm) = (if len (m_ctm ctm) = 0 then zeroKey else last_ctm ctm)"
    by (rule removeOldest_fst)
  have a: "len (m_ctm ctm) = 0 \<longrightarrow> removeOldest ctm = (zeroKey, ctm)"
  proof
    assume z: "len (m_ctm ctm) = 0"
    then have "first ctm = zeroKey \<and> last_ctm ctm = zeroKey"
      using ctm_reachable_ends[OF r] by blast
    then show "removeOldest ctm = (zeroKey, ctm)"
      using z by (simp add: removeOldest_def del: len_0)
  qed
  show "(len (m_ctm ctm) = 0 \<longrightarrow> removeOldest ctm = (zeroKey, ctm))
      \<and> (len (m_ctm ctm) \<noteq> 0 \<longrightarrow> fst (removeOldest ctm) = last_ctm ctm)
      \<and> (fst (removeOldest ctm) = zeroKey
            \<longleftrightarrow> len (m_ctm ctm) = 0 \<or> last_ctm ctm = zeroKey)"
    using a f by (simp del: len_0)
next
  assume r: "ctm_reachable selfEq ctm \<and> len (m_ctm ctm) \<noteq> 0"
  then obtain ks where ks: "ctm_inv ctm ks" using ctm_reachable_inv by blast
  have ne: "ks \<noteq> []" and l: "last_ctm ctm = Key (last ks)"
    using ctm_inv_ends[OF ks] r by auto
  have d: "distinct ks" "fmdom' (entries (m_ctm ctm)) = set ks" "nanEntries (m_ctm ctm) = []"
    using ks by (simp_all add: ctm_inv_def)
  have s1: "set ks = insert (last ks) (set (butlast ks))" by (rule set_butlast_last[OF ne])
  have s2: "last ks \<notin> set (butlast ks)" by (rule last_notin_butlast[OF d(1) ne])
  have i: "ctm_inv (snd (removeOldest ctm)) (butlast ks)"
    using removeOldest_inv[OF ks ne] by simp
  have k1: "keysOf (m_ctm ctm) = Key ` set ks"
    using d by (simp add: keysOf_def)
  have k2: "keysOf (m_ctm (snd (removeOldest ctm))) = Key ` set (butlast ks)"
    using i by (simp add: keysOf_def ctm_inv_def)
  have "Key ` set (butlast ks) = Key ` set ks - {Key (last ks)}"
    using s1 s2 by auto
  then show "last_ctm ctm \<in> keysOf (m_ctm ctm)
        \<and> keysOf (m_ctm (snd (removeOldest ctm))) = keysOf (m_ctm ctm) - {last_ctm ctm}"
    using k1 k2 l ne by simp
qed

theorem C4_removeOldest_empty_witness:
  "ctm_reachable anyKey (newCacheTimeMap (Key (0::int)))
   \<and> len (m_ctm (newCacheTimeMap (Key (0::int)))) = 0
   \<and> removeOldest (newCacheTimeMap (Key (0::int))) = (zeroKey, newCacheTimeMap (Key (0::int)))
   \<and> ctm_reachable anyKey (updateTimeMap (updateTimeMap (newCacheTimeMap (Key (0::int))) (Key 5) 1) (Key 0) 2)
   \<and> Key 0 \<in> keysOf (m_ctm (updateTimeMap (updateTimeMap (newCacheTimeMap (Key (0::int))) (Key 5) 1) (Key 0) 2))
   \<and> len (m_ctm (updateTimeMap (updateTimeMap (newCacheTimeMap (Key (0::int))) (Key 5) 1) (Key 0) 2)) \<noteq> 0
   \<and> fst (removeOldest (updateTimeMap (updateTimeMap (newCacheTimeMap (Key (0::int))) (Key 5) 1) (Key 0) 2)) = Key 5
   \<and> ctm_reachable selfEq (updateTimeMap (updateTimeMap (newCacheTimeMap (Key (0::int))) (Key 5) 1) (Key 6) 2)
   \<and> len (m_ctm (updateTimeMap (updateTimeMap (newCacheTimeMap (Key (0::int))) (Key 5) 1) (Key 6) 2)) \<noteq> 0
   \<and> last_ctm (updateTimeMap (updateTimeMap (newCacheTimeMap (Key (0::int))) (Key 5) 1) (Key 6) 2) = Key 5
   \<and> keysOf (m_ctm (snd (removeOldest (updateTimeMap (updateTimeMap (newCacheTimeMap (Key (0::int))) (Key 5) 1) (Key 6) 2)))) = {Key 6}"
proof -
  let ?new = "newCacheTimeMap (Key (0::int))"
  let ?i05 = "updateTimeMap (updateTimeMap (newCacheTimeMap (Key (0::int))) (Key 5) 1) (Key 0) 2"
  let ?i56 = "updateTimeMap (updateTimeMap (newCacheTimeMap (Key (0::int))) (Key 5) 1) (Key 6) 2"
  have a: "ctm_reachable P ?new" for P by (rule ctm_new)
  have b: "ctm_reachable anyKey ?i05"
    by (intro ctm_touch a) (simp_all add: anyKey_def)
  have c: "ctm_reachable selfEq ?i56"
    by (intro ctm_touch a) simp_all
  have z: "len (m_ctm ?new) = 0" by (simp add: newCacheTimeMap_def)
  have e05: "?i05 = \<lparr>m_ctm = GoMap (fmupd (0::int) \<lparr>prev = Key 0, next = Key 5, timestamp = 2\<rparr> (fmupd 5 \<lparr>prev = Key 0, next = Key 5, timestamp = 1\<rparr> fmempty)) [], first = Key 0, last_ctm = Key 5\<rparr>"
    by (simp add: ctm_evals)
  have e56: "?i56 = \<lparr>m_ctm = GoMap (fmupd (6::int) \<lparr>prev = Key 6, next = Key 5, timestamp = 2\<rparr> (fmupd 5 \<lparr>prev = Key 6, next = Key 5, timestamp = 1\<rparr> fmempty)) [], first = Key 6, last_ctm = Key 5\<rparr>"
    by (simp add: ctm_evals)
  have n05: "len (m_ctm ?i05) \<noteq> 0" unfolding e05 by simp
  have n56: "len (m_ctm ?i56) \<noteq> 0" unfolding e56 by simp
  have l05: "last_ctm ?i05 = Key 5" unfolding e05 by simp
  have l56: "last_ctm ?i56 = Key 5" unfolding e56 by simp
  have k05: "Key 0 \<in> keysOf (m_ctm ?i05)" unfolding e05 by simp
  have k56: "keysOf (m_ctm ?i56) = {Key 5, Key 6}" unfolding e56 by (auto simp: keysOf_def)
  have r1: "removeOldest ?new = (zeroKey, ?new)"
    using C4_removeOldest_empty[of ?new] a[of anyKey] z by blast
  have "fst (removeOldest ?i05) = last_ctm ?i05"
    using C4_removeOldest_empty[of ?i05] b n05 by blast
  then have r2: "fst (removeOldest ?i05) = Key 5" using l05 by simp
  have "keysOf (m_ctm (snd (removeOldest ?i56))) = keysOf (m_ctm ?i56) - {last_ctm ?i56}"
    using C4_removeOldest_empty[of ?i56] c n56 by blast
  then have r3: "keysOf (m_ctm (snd (removeOldest ?i56))) = {Key 6}"
    unfolding k56 l56 by auto
  show ?thesis
    using a[of anyKey] z r1 b k05 n05 r2 c n56 l56 r3 by (intro conjI)
qed

theorem C4_zero_key_counterexample:
  "removeOldest (newCacheTimeMap (Key (0::int))) = (zeroKey, newCacheTimeMap (Key (0::int)))
   \<and> len (m_ctm (updateTimeMap (newCacheTimeMap (Key (0::int))) (Key 0) 7)) = 1
   \<and> removeOldest (updateTimeMap (newCacheTimeMap (Key (0::int))) (Key 0) 7) = (zeroKey, newCacheTimeMap (Key (0::int)))
   \<and> len (m_ctm (updateTimeMap (updateTimeMap (newCacheTimeMap (Key (0::int))) (Key 0) 1) (Key 5) 2)) = 2
   \<and> fst (removeOldest (updateTimeMap (updateTimeMap (newCacheTimeMap (Key (0::int))) (Key 0) 1) (Key 5) 2)) = zeroKey
   \<and> len (m_ctm (updateTimeMap (newCacheTimeMap (Key (0::int))) (NaN 1) 5)) = 1
   \<and> fst (removeOldest (updateTimeMap (newCacheTimeMap (Key (0::int))) (NaN 1) 5)) = NaN 1
   \<and> NaN 1 \<in> keysOf (m_ctm (snd (removeOldest (updateTimeMap (newCacheTimeMap (Key (0::int))) (NaN 1) 5))))
   \<and> len (m_ctm (snd (removeOldest (updateTimeMap (newCacheTimeMap (Key (0::int))) (NaN 1) 5)))) = 2"
proof -
  let ?new = "newCacheTimeMap (Key (0::int))"
  let ?i0 = "updateTimeMap (newCacheTimeMap (Key (0::int))) (Key 0) 7"
  let ?i50 = "updateTimeMap (updateTimeMap (newCacheTimeMap (Key (0::int))) (Key 0) 1) (Key 5) 2"
  let ?inan = "updateTimeMap (newCacheTimeMap (Key (0::int))) (NaN 1) 5"
  have e0: "?i0 = \<lparr>m_ctm = GoMap (fmupd (0::int) \<lparr>prev = Key 0, next = Key 0, timestamp = 7\<rparr> fmempty) [], first = Key 0, last_ctm = Key 0\<rparr>"
    by (simp add: ctm_evals)
  have e50: "?i50 = \<lparr>m_ctm = GoMap (fmupd (5::int) \<lparr>prev = Key 5, next = Key 0, timestamp = 2\<rparr> (fmupd 0 \<lparr>prev = Key 5, next = Key 0, timestamp = 1\<rparr> fmempty)) [], first = Key 5, last_ctm = Key 0\<rparr>"
    by (simp add: ctm_evals)
  have en: "?inan = \<lparr>m_ctm = GoMap (fmempty) [((1::int), \<lparr>prev = NaN 1, next = NaN 1, timestamp = 5\<rparr>)], first = NaN 1, last_ctm = NaN 1\<rparr>"
    by (simp add: ctm_evals)
  have r1: "removeOldest ?new = (zeroKey, ?new)" by (simp add: ctm_evals)
  have r2: "len (m_ctm ?i0) = 1" unfolding e0 by (simp add: len_def)
  have r3: "removeOldest ?i0 = (zeroKey, ?new)" unfolding e0 by (simp add: ctm_evals)
  have r4: "len (m_ctm ?i50) = 2" unfolding e50 by (simp add: len_def)
  have r5: "fst (removeOldest ?i50) = zeroKey" unfolding e50 by (simp add: ctm_evals del: len_0)
  have r6: "len (m_ctm ?inan) = 1" unfolding en by (simp add: len_def)
  have rn: "removeOldest ?inan = (NaN 1, \<lparr>m_ctm = GoMap (fmupd 0 \<lparr>prev = Key 0, next = Key 0, timestamp = 0\<rparr> fmempty) [((1::int), \<lparr>prev = NaN 1, next = NaN 1, timestamp = 5\<rparr>)], first = NaN 1, last_ctm = Key 0\<rparr>)"
    unfolding en by (simp add: ctm_evals)
  have r7: "fst (removeOldest ?inan) = NaN 1" unfolding rn by simp
  have r8: "NaN 1 \<in> keysOf (m_ctm (snd (removeOldest ?inan)))" unfolding rn by simp
  have r9: "len (m_ctm (snd (removeOldest ?inan))) = 2" unfolding rn by (simp add: len_def)
  show ?thesis using r1 r2 r3 r4 r5 r6 r7 r8 r9 by (intro conjI)
qed

text \<open>
  C5 (amended). In every state of the index reached by \<open>updateTimeMap\<close> and
  \<open>removeOldest\<close>, over any keys: when the node map is empty, \<open>first\<close> and \<open>last\<close>
  hold the zero key. When all the keys used are equal to themselves, the node map is empty
  if and only if \<open>first\<close> and \<open>last\<close> hold the zero key in every state but one: the
  index whose only key is the zero key.
\<close>

theorem C5_empty_iff_sentinel:
  "(ctm_reachable anyKey ctm \<and> len (m_ctm ctm) = 0
      \<longrightarrow> first ctm = zeroKey \<and> last_ctm ctm = zeroKey)
   \<and> (ctm_reachable selfEq ctm \<longrightarrow>
        ((len (m_ctm ctm) = 0 \<longleftrightarrow> first ctm = zeroKey \<and> last_ctm ctm = zeroKey)
          \<longleftrightarrow> keysOf (m_ctm ctm) \<noteq> {zeroKey}))"
proof (rule conjI; rule impI)
  assume "ctm_reachable anyKey ctm \<and> len (m_ctm ctm) = 0"
  then show "first ctm = zeroKey \<and> last_ctm ctm = zeroKey"
    using ctm_reachable_ends[of anyKey ctm] by blast
next
  assume "ctm_reachable selfEq ctm"
  then obtain ks where ks: "ctm_inv ctm ks" using ctm_reachable_inv by blast
  have k: "keysOf (m_ctm ctm) = Key ` set ks"
    using ks by (simp add: keysOf_def ctm_inv_def)
  have d: "distinct ks" using ks by (simp add: ctm_inv_def)
  show "(len (m_ctm ctm) = 0 \<longleftrightarrow> first ctm = zeroKey \<and> last_ctm ctm = zeroKey)
          \<longleftrightarrow> keysOf (m_ctm ctm) \<noteq> {zeroKey}"
  proof (cases ks)
    case Nil
    then show ?thesis using ctm_inv_ends[OF ks] ks k by (simp add: ctm_inv_def zeroKey_def)
  next
    case (Cons x xs)
    then have ne: "ks \<noteq> []" by simp
    have n0: "len (m_ctm ctm) \<noteq> 0" using ctm_inv_nonempty[OF ks ne] .
    have e: "first ctm = Key x" "last_ctm ctm = Key (last ks)"
      using ks Cons by (simp_all add: ctm_inv_def)
    have "(x = 0 \<and> last ks = 0) \<longleftrightarrow> Key ` set ks = {Key (0::'a)}"
    proof
      assume a: "x = 0 \<and> last ks = 0"
      have "xs = []"
      proof (rule ccontr)
        assume "xs \<noteq> []"
        then have "last ks = last xs" "last xs \<in> set xs" using Cons by simp_all
        then show False using a d Cons by auto
      qed
      then show "Key ` set ks = {Key (0::'a)}" using a Cons by simp
    next
      assume a: "Key ` set ks = {Key (0::'a)}"
      have "set ks = {0}"
      proof
        show "set ks \<subseteq> {0}" using a by auto
        show "{0} \<subseteq> set ks" using a by auto
      qed
      then have "x = 0" "last ks \<in> {0}" using Cons ne last_in_set[OF ne] by auto
      then show "x = 0 \<and> last ks = 0" by simp
    qed
    then show ?thesis using n0 e k by (simp add: zeroKey_def del: len_0)
  qed
qed

theorem C5_empty_iff_sentinel_witness:
  "ctm_reachable anyKey (newCacheTimeMap (Key (0::int)))
   \<and> len (m_ctm (newCacheTimeMap (Key (0::int)))) = 0
   \<and> first (newCacheTimeMap (Key (0::int))) = zeroKey \<and> last_ctm (newCacheTimeMap (Key (0::int))) = zeroKey
   \<and> ctm_reachable selfEq (updateTimeMap (updateTimeMap (newCacheTimeMap (Key (0::int))) (Key 0) 1) (Key 5) 2)
   \<and> keysOf (m_ctm (updateTimeMap (updateTimeMap (newCacheTimeMap (Key (0::int))) (Key 0) 1) (Key 5) 2)) = {Key 0, Key 5}
   \<and> keysOf (m_ctm (updateTimeMap (updateTimeMap (newCacheTimeMap (Key (0::int))) (Key 0) 1) (Key 5) 2)) \<noteq> {zeroKey}
   \<and> (len (m_ctm (updateTimeMap (updateTimeMap (newCacheTimeMap (Key (0::int))) (Key 0) 1) (Key 5) 2)) = 0
        \<longleftrightarrow> first (updateTimeMap (updateTimeMap (newCacheTimeMap (Key (0::int))) (Key 0) 1) (Key 5) 2) = zeroKey
          \<and> last_ctm (updateTimeMap (updateTimeMap (newCacheTimeMap (Key (0::int))) (Key 0) 1) (Key 5) 2) = zeroKey)
   \<and> first (updateTimeMap (updateTimeMap (newCacheTimeMap (Key (0::int))) (Key 0) 1) (Key 5) 2) = Key 5"
proof -
  let ?new = "newCacheTimeMap (Key (0::int))"
  let ?i50 = "updateTimeMap (updateTimeMap (newCacheTimeMap (Key (0::int))) (Key 0) 1) (Key 5) 2"
  have a: "ctm_reachable P ?new" for P by (rule ctm_new)
  have c: "ctm_reachable selfEq ?i50"
    by (intro ctm_touch a) simp_all
  have z: "len (m_ctm ?new) = 0" by (simp add: newCacheTimeMap_def)
  have e50: "?i50 = \<lparr>m_ctm = GoMap (fmupd (5::int) \<lparr>prev = Key 5, next = Key 0, timestamp = 2\<rparr> (fmupd 0 \<lparr>prev = Key 5, next = Key 0, timestamp = 1\<rparr> fmempty)) [], first = Key 5, last_ctm = Key 0\<rparr>"
    by (simp add: ctm_evals)
  have k: "keysOf (m_ctm ?i50) = {Key 0, Key 5}" unfolding e50 by (auto simp: keysOf_def)
  have n: "keysOf (m_ctm ?i50) \<noteq> {zeroKey}" unfolding k zeroKey_def by auto
  have f: "first ?i50 = Key 5" unfolding e50 by simp
  have r1: "first ?new = zeroKey \<and> last_ctm ?new = zeroKey"
    using C5_empty_iff_sentinel[of ?new] a[of anyKey] z by blast
  have r2: "len (m_ctm ?i50) = 0 \<longleftrightarrow> first ?i50 = zeroKey \<and> last_ctm ?i50 = zeroKey"
    using C5_empty_iff_sentinel[of ?i50] c n by blast
  show ?thesis
    using a[of anyKey] z r1 c k n r2 f by (intro conjI) blast+
qed

theorem C5_zero_key_counterexample:
  "ctm_reachable selfEq (updateTimeMap (newCacheTimeMap (Key (0::int))) (Key 0) 7)
   \<and> len (m_ctm (updateTimeMap (newCacheTimeMap (Key (0::int))) (Key 0) 7)) = 1
   \<and> first (updateTimeMap (newCacheTimeMap (Key (0::int))) (Key 0) 7) = zeroKey
   \<and> last_ctm (updateTimeMap (newCacheTimeMap (Key (0::int))) (Key 0) 7) = zeroKey
   \<and> ctm_reachable anyKey (updateTimeMap (snd (removeOldest (updateTimeMap (newCacheTimeMap (Key (0::int))) (NaN 1) 5))) (Key 0) 6)
   \<and> keysOf (m_ctm (updateTimeMap (snd (removeOldest (updateTimeMap (newCacheTimeMap (Key (0::int))) (NaN 1) 5))) (Key 0) 6)) = {Key 0, NaN 1}
   \<and> keysOf (m_ctm (updateTimeMap (snd (removeOldest (updateTimeMap (newCacheTimeMap (Key (0::int))) (NaN 1) 5))) (Key 0) 6)) \<noteq> {zeroKey}
   \<and> len (m_ctm (updateTimeMap (snd (removeOldest (updateTimeMap (newCacheTimeMap (Key (0::int))) (NaN 1) 5))) (Key 0) 6)) = 3
   \<and> first (updateTimeMap (snd (removeOldest (updateTimeMap (newCacheTimeMap (Key (0::int))) (NaN 1) 5))) (Key 0) 6) = zeroKey
   \<and> last_ctm (updateTimeMap (snd (removeOldest (updateTimeMap (newCacheTimeMap (Key (0::int))) (NaN 1) 5))) (Key 0) 6) = zeroKey"
proof -
  let ?new = "newCacheTimeMap (Key (0::int))"
  let ?i0 = "updateTimeMap (newCacheTimeMap (Key (0::int))) (Key 0) 7"
  let ?inan = "updateTimeMap (newCacheTimeMap (Key (0::int))) (NaN 1) 5"
  let ?ipol = "updateTimeMap (snd (removeOldest (updateTimeMap (newCacheTimeMap (Key (0::int))) (NaN 1) 5))) (Key 0) 6"
  have a: "ctm_reachable P ?new" for P by (rule ctm_new)
  have b: "ctm_reachable selfEq ?i0"
    by (intro ctm_touch a) simp
  have c: "ctm_reachable anyKey ?ipol"
    by (intro ctm_touch ctm_evict a) (simp_all add: anyKey_def)
  have e0: "?i0 = \<lparr>m_ctm = GoMap (fmupd (0::int) \<lparr>prev = Key 0, next = Key 0, timestamp = 7\<rparr> fmempty) [], first = Key 0, last_ctm = Key 0\<rparr>"
    by (simp add: ctm_evals)
  have en: "?inan = \<lparr>m_ctm = GoMap (fmempty) [((1::int), \<lparr>prev = NaN 1, next = NaN 1, timestamp = 5\<rparr>)], first = NaN 1, last_ctm = NaN 1\<rparr>"
    by (simp add: ctm_evals)
  have rn: "removeOldest ?inan = (NaN 1, \<lparr>m_ctm = GoMap (fmupd 0 \<lparr>prev = Key 0, next = Key 0, timestamp = 0\<rparr> fmempty) [((1::int), \<lparr>prev = NaN 1, next = NaN 1, timestamp = 5\<rparr>)], first = NaN 1, last_ctm = Key 0\<rparr>)"
    unfolding en by (simp add: ctm_evals)
  have ep: "?ipol = \<lparr>m_ctm = GoMap (fmupd 0 \<lparr>prev = Key 0, next = Key 0, timestamp = 6\<rparr> fmempty) [((1::int), \<lparr>prev = NaN 1, next = NaN 1, timestamp = 5\<rparr>), (1, \<lparr>prev = Key 0, next = Key 0, timestamp = 0\<rparr>)], first = Key 0, last_ctm = Key 0\<rparr>"
    unfolding rn by (simp add: ctm_evals)
  have r1: "len (m_ctm ?i0) = 1" unfolding e0 by (simp add: len_def)
  have r2: "first ?i0 = zeroKey" "last_ctm ?i0 = zeroKey" unfolding e0 by (simp_all add: zeroKey_def)
  have k: "keysOf (m_ctm ?ipol) = {Key 0, NaN 1}" unfolding ep by (auto simp: keysOf_def)
  have n: "keysOf (m_ctm ?ipol) \<noteq> {zeroKey}" unfolding k zeroKey_def by auto
  have r3: "len (m_ctm ?ipol) = 3" unfolding ep by (simp add: len_def)
  have r4: "first ?ipol = zeroKey" "last_ctm ?ipol = zeroKey" unfolding ep by (simp_all add: zeroKey_def)
  show ?thesis using b r1 r2 c k n r3 r4 by (intro conjI)
qed

text \<open>
  C6. In the LRW cache \<open>Get\<close> performs no touch: in every cache state and for every
  key it returns the looked-up value and flag and leaves the whole cache (values map,
  index, order and timestamps) as it was; so any number of \<open>Get\<close> calls leaves the
  state, and with it the result of every later \<open>Set\<close>, unchanged.
\<close>

theorem C6_get_lrw_frame:
  "GetLRW c k = (case mapLookup (m_cache c) k of None \<Rightarrow> (0, False) | Some rv \<Rightarrow> (rv, True), c)
   \<and> snd (GetLRW c k) = c
   \<and> ((\<lambda>s. snd (GetLRW s k)) ^^ n) c = c
   \<and> SetLRW (((\<lambda>s. snd (GetLRW s k)) ^^ n) c) k' v now = SetLRW c k' v now"
proof -
  have "((\<lambda>s. snd (GetLRW s k)) ^^ n) c = c"
    by (induction n) (simp_all add: GetLRW_def)
  then show ?thesis by (simp add: GetLRW_def)
qed

text \<open>
  C7 (amended). In every state reached from a constructed cache of either variant with
  keys that are equal to themselves, the walk from \<open>first\<close> along the \<open>next\<close> fields
  visits every key of the index's node map exactly once and ends at \<open>last\<close>. In the
  LRU cache the visited keys include every key of the values map (a \<open>Get\<close> of an absent
  key adds a key with no value); in the LRW cache they are exactly the keys of the values
  map, \<open>len(values)\<close> many.
\<close>

theorem C7_walk_visits_index:
  "(lru_reachable selfEq sz age c \<longrightarrow>
      distinct (towardTail (keys c))
      \<and> set (towardTail (keys c)) = keysOf (m_ctm (keys c))
      \<and> length (towardTail (keys c)) = len (m_ctm (keys c))
      \<and> keysOf (m_cache c) \<subseteq> set (towardTail (keys c))
      \<and> (towardTail (keys c) \<noteq> [] \<longrightarrow> last (towardTail (keys c)) = last_ctm (keys c)))
   \<and> (lrw_reachable selfEq sz age c \<longrightarrow>
      distinct (towardTail (keys c))
      \<and> set (towardTail (keys c)) = keysOf (m_cache c)
      \<and> length (towardTail (keys c)) = len (m_cache c)
      \<and> (towardTail (keys c) \<noteq> [] \<longrightarrow> last (towardTail (keys c)) = last_ctm (keys c)))"
proof (rule conjI; rule impI)
  assume "lru_reachable selfEq sz age c"
  then obtain ks where ks: "lru_inv c ks" using lru_reachable_inv[of sz age c] by blast
  then have i: "ctm_inv (keys c) ks" and s: "fmdom' (entries (m_cache c)) \<subseteq> set ks"
    and n: "nanEntries (m_cache c) = []" by (simp_all add: lru_inv_def)
  have w: "towardTail (keys c) = map Key ks" "distinct ks"
    "Key ` set ks = keysOf (m_ctm (keys c))" "length ks = len (m_ctm (keys c))"
    "ks \<noteq> [] \<longrightarrow> Key (last ks) = last_ctm (keys c)"
    using walk_facts[OF i] by simp_all
  have d: "distinct (map Key ks)" using w(2) by (simp add: distinct_map inj_on_def)
  have v: "keysOf (m_cache c) \<subseteq> Key ` set ks" using s n by (auto simp: keysOf_def)
  show "distinct (towardTail (keys c))
      \<and> set (towardTail (keys c)) = keysOf (m_ctm (keys c))
      \<and> length (towardTail (keys c)) = len (m_ctm (keys c))
      \<and> keysOf (m_cache c) \<subseteq> set (towardTail (keys c))
      \<and> (towardTail (keys c) \<noteq> [] \<longrightarrow> last (towardTail (keys c)) = last_ctm (keys c))"
    using w d v by (simp add: last_map del: len_0)
next
  assume "lrw_reachable selfEq sz age c"
  then obtain ks where ks: "lrw_inv c ks" using lrw_reachable_inv[of sz age c] by blast
  then have i: "ctm_inv (keys c) ks" and s: "fmdom' (entries (m_cache c)) = set ks"
    and n: "nanEntries (m_cache c) = []" by (simp_all add: lrw_inv_def)
  have w: "towardTail (keys c) = map Key ks" "distinct ks"
    "ks \<noteq> [] \<longrightarrow> Key (last ks) = last_ctm (keys c)"
    using walk_facts[OF i] by simp_all
  have d: "distinct (map Key ks)" using w(2) by (simp add: distinct_map inj_on_def)
  have v: "keysOf (m_cache c) = Key ` set ks" using s n by (auto simp: keysOf_def)
  have l: "len (m_cache c) = length ks" by (rule lrw_inv_len[OF ks])
  show "distinct (towardTail (keys c))
      \<and> set (towardTail (keys c)) = keysOf (m_cache c)
      \<and> length (towardTail (keys c)) = len (m_cache c)
      \<and> (towardTail (keys c) \<noteq> [] \<longrightarrow> last (towardTail (keys c)) = last_ctm (keys c))"
    using w d v l by (simp add: last_map del: len_0)
qed

theorem C7_walk_visits_index_witness:
  "lru_reachable selfEq 5 0 (snd (GetLRU \<lparr>m_cache = GoMap (fmupd (1::int) (10::int) fmempty) [], keys = \<lparr>m_ctm = GoMap (fmupd 1 \<lparr>prev = Key 1, next = Key 1, timestamp = 5\<rparr> fmempty) [], first = Key 1, last_ctm = Key 1\<rparr>, maxSize = 5, maxAge = 0\<rparr> (Key 99) 6))
   \<and> towardTail (keys (snd (GetLRU \<lparr>m_cache = GoMap (fmupd (1::int) (10::int) fmempty) [], keys = \<lparr>m_ctm = GoMap (fmupd 1 \<lparr>prev = Key 1, next = Key 1, timestamp = 5\<rparr> fmempty) [], first = Key 1, last_ctm = Key 1\<rparr>, maxSize = 5, maxAge = 0\<rparr> (Key 99) 6))) = [Key 99, Key 1]
   \<and> len (m_cache (snd (GetLRU \<lparr>m_cache = GoMap (fmupd (1::int) (10::int) fmempty) [], keys = \<lparr>m_ctm = GoMap (fmupd 1 \<lparr>prev = Key 1, next = Key 1, timestamp = 5\<rparr> fmempty) [], first = Key 1, last_ctm = Key 1\<rparr>, maxSize = 5, maxAge = 0\<rparr> (Key 99) 6))) = 1
   \<and> lrw_reachable selfEq 5 0 \<lparr>m_cache = GoMap (fmupd (1::int) (10::int) fmempty) [], keys = \<lparr>m_ctm = GoMap (fmupd 1 \<lparr>prev = Key 1, next = Key 1, timestamp = 5\<rparr> fmempty) [], first = Key 1, last_ctm = Key 1\<rparr>, maxSize = 5, maxAge = 0\<rparr>
   \<and> towardTail (keys \<lparr>m_cache = GoMap (fmupd (1::int) (10::int) fmempty) [], keys = \<lparr>m_ctm = GoMap (fmupd 1 \<lparr>prev = Key 1, next = Key 1, timestamp = 5\<rparr> fmempty) [], first = Key 1, last_ctm = Key 1\<rparr>, maxSize = 5, maxAge = 0\<rparr>) = [Key 1]
   \<and> len (m_cache \<lparr>m_cache = GoMap (fmupd (1::int) (10::int) fmempty) [], keys = \<lparr>m_ctm = GoMap (fmupd 1 \<lparr>prev = Key 1, next = Key 1, timestamp = 5\<rparr> fmempty) [], first = Key 1, last_ctm = Key 1\<rparr>, maxSize = 5, maxAge = 0\<rparr>) = 1"
proof -
  let ?c0 = "\<lparr>m_cache = (makeMap :: (int, int) gomap), keys = newCacheTimeMap (Key (0::int)), maxSize = 5, maxAge = 0\<rparr>"
  let ?c1 = "\<lparr>m_cache = GoMap (fmupd (1::int) (10::int) fmempty) [], keys = \<lparr>m_ctm = GoMap (fmupd 1 \<lparr>prev = Key 1, next = Key 1, timestamp = 5\<rparr> fmempty) [], first = Key 1, last_ctm = Key 1\<rparr>, maxSize = 5, maxAge = 0\<rparr>"
  have u0: "lru_reachable selfEq 5 0 ?c0"
    by (rule lru_new[of "Key 0" 0]) (simp add: NewLRUCache_def)
  have w0: "lrw_reachable selfEq 5 0 ?c0"
    by (rule lrw_new[of "Key 0" 0]) (simp add: NewLRWCache_def)
  have s1: "SetLRU ?c0 (Key 1) 10 5 = Some ?c1" by (simp add: cache_evals)
  have u1: "lru_reachable selfEq 5 0 ?c1" by (rule lru_set[OF u0 _ s1]) simp
  have u2: "lru_reachable selfEq 5 0 (snd (GetLRU ?c1 (Key 99) 6))"
    by (rule lru_get[OF u1]) simp
  have s1w: "SetLRW ?c0 (Key 1) 10 5 = Some ?c1" by (simp add: cache_evals)
  have w1: "lrw_reachable selfEq 5 0 ?c1" by (rule lrw_set[OF w0 _ s1w]) simp
  have t2: "towardTail (keys (snd (GetLRU ?c1 (Key 99) 6))) = [Key 99, Key 1]"
    by (simp add: towardTail_def cache_evals)
  have t1: "towardTail (keys ?c1) = [Key 1]"
    by (simp add: towardTail_def cache_evals)
  show ?thesis
    using u2 w1 t1 t2 C7_walk_visits_index[of 5 0 "snd (GetLRU ?c1 (Key 99) 6)"]
      C7_walk_visits_index[of 5 0 ?c1]
    by (simp add: cache_evals)
qed

theorem C7_phantom_counterexample:
  "lru_reachable selfEq 5 0 (snd (GetLRU \<lparr>m_cache = (makeMap :: (int, int) gomap), keys = newCacheTimeMap (Key (0::int)), maxSize = 5, maxAge = 0\<rparr> (Key 99) 7))
   \<and> towardTail (keys (snd (GetLRU \<lparr>m_cache = (makeMap :: (int, int) gomap), keys = newCacheTimeMap (Key (0::int)), maxSize = 5, maxAge = 0\<rparr> (Key 99) 7))) = [Key 99]
   \<and> len (m_cache (snd (GetLRU \<lparr>m_cache = (makeMap :: (int, int) gomap), keys = newCacheTimeMap (Key (0::int)), maxSize = 5, maxAge = 0\<rparr> (Key 99) 7))) = 0
   \<and> length (towardTail (keys (snd (GetLRU \<lparr>m_cache = (makeMap :: (int, int) gomap), keys = newCacheTimeMap (Key (0::int)), maxSize = 5, maxAge = 0\<rparr> (Key 99) 7))))
       \<noteq> len (m_cache (snd (GetLRU \<lparr>m_cache = (makeMap :: (int, int) gomap), keys = newCacheTimeMap (Key (0::int)), maxSize = 5, maxAge = 0\<rparr> (Key 99) 7)))
   \<and> lrw_reachable anyKey 5 0 \<lparr>m_cache = GoMap (fmempty) [((0::int), (7::int))], keys = \<lparr>m_ctm = GoMap (fmempty) [(0, \<lparr>prev = NaN 0, next = NaN 0, timestamp = 5\<rparr>)], first = NaN 0, last_ctm = NaN 0\<rparr>, maxSize = 5, maxAge = 0\<rparr>
   \<and> SetLRW \<lparr>m_cache = (makeMap :: (int, int) gomap), keys = newCacheTimeMap (Key (0::int)), maxSize = 5, maxAge = 0\<rparr> (NaN 0) 7 5 = Some \<lparr>m_cache = GoMap (fmempty) [((0::int), (7::int))], keys = \<lparr>m_ctm = GoMap (fmempty) [(0, \<lparr>prev = NaN 0, next = NaN 0, timestamp = 5\<rparr>)], first = NaN 0, last_ctm = NaN 0\<rparr>, maxSize = 5, maxAge = 0\<rparr>
   \<and> towardTail (keys \<lparr>m_cache = GoMap (fmempty) [((0::int), (7::int))], keys = \<lparr>m_ctm = GoMap (fmempty) [(0, \<lparr>prev = NaN 0, next = NaN 0, timestamp = 5\<rparr>)], first = NaN 0, last_ctm = NaN 0\<rparr>, maxSize = 5, maxAge = 0\<rparr>) = []
   \<and> len (m_cache \<lparr>m_cache = GoMap (fmempty) [((0::int), (7::int))], keys = \<lparr>m_ctm = GoMap (fmempty) [(0, \<lparr>prev = NaN 0, next = NaN 0, timestamp = 5\<rparr>)], first = NaN 0, last_ctm = NaN 0\<rparr>, maxSize = 5, maxAge = 0\<rparr>) = 1
   \<and> len (m_ctm (keys \<lparr>m_cache = GoMap (fmempty) [((0::int), (7::int))], keys = \<lparr>m_ctm = GoMap (fmempty) [(0, \<lparr>prev = NaN 0, next = NaN 0, timestamp = 5\<rparr>)], first = NaN 0, last_ctm = NaN 0\<rparr>, maxSize = 5, maxAge = 0\<rparr>)) = 1"
proof -
  let ?c0 = "\<lparr>m_cache = (makeMap :: (int, int) gomap), keys = newCacheTimeMap (Key (0::int)), maxSize = 5, maxAge = 0\<rparr>"
  let ?cn = "\<lparr>m_cache = GoMap (fmempty) [((0::int), (7::int))], keys = \<lparr>m_ctm = GoMap (fmempty) [(0, \<lparr>prev = NaN 0, next = NaN 0, timestamp = 5\<rparr>)], first = NaN 0, last_ctm = NaN 0\<rparr>, maxSize = 5, maxAge = 0\<rparr>"
  have u0: "lru_reachable selfEq 5 0 ?c0"
    by (rule lru_new[of "Key 0" 0]) (simp add: NewLRUCache_def)
  have u1: "lru_reachable selfEq 5 0 (snd (GetLRU ?c0 (Key 99) 7))"
    by (rule lru_get[OF u0]) simp
  have t: "towardTail (keys (snd (GetLRU ?c0 (Key 99) 7))) = [Key 99]"
    by (simp add: towardTail_def cache_evals)
  have w0: "lrw_reachable anyKey 5 0 ?c0"
    by (rule lrw_new[of "Key 0" 0]) (simp add: NewLRWCache_def)
  have s: "SetLRW ?c0 (NaN 0) 7 5 = Some ?cn" by (simp add: cache_evals)
  have w1: "lrw_reachable anyKey 5 0 ?cn"
    by (rule lrw_set[OF w0 _ s]) (simp add: anyKey_def)
  have tn: "towardTail (keys ?cn) = []" by (simp add: towardTail_def)
  show ?thesis using u1 t w1 s tn by (simp add: cache_evals)
qed

text \<open>
  C8 (amended). Eviction is oldest-first, in both variants, with no age bound and keys
  that are equal to themselves. With \<open>maxSize = 3\<close>, after setting three distinct keys
  A, B, C in that order all three are present, and setting a 4th distinct key D evicts A
  and only A. With \<open>maxSize = 2\<close>, A, the oldest, is evicted already by the third
  \<open>Set\<close>, so that B and C remain; setting D then evicts B, the oldest key left, and C
  and D remain.
\<close>

theorem C8_oldest_first:
  "(distinct [A, B, C, D] \<and> NewLRWCache k0 v0 3 0 = Inr c0 \<longrightarrow>
     (\<exists>c1 c2 c3 c4.
        SetLRW c0 (Key A) va t1 = Some c1 \<and> SetLRW c1 (Key B) vb t2 = Some c2
      \<and> SetLRW c2 (Key C) vc t3 = Some c3 \<and> SetLRW c3 (Key D) vd t4 = Some c4
      \<and> towardTail (keys c3) = [Key C, Key B, Key A]
      \<and> fst (GetLRW c3 (Key A)) = (va, True) \<and> fst (GetLRW c3 (Key B)) = (vb, True)
      \<and> fst (GetLRW c3 (Key C)) = (vc, True)
      \<and> towardTail (keys c4) = [Key D, Key C, Key B]
      \<and> fst (GetLRW c4 (Key A)) = (0, False) \<and> fst (GetLRW c4 (Key B)) = (vb, True)
      \<and> fst (GetLRW c4 (Key C)) = (vc, True) \<and> fst (GetLRW c4 (Key D)) = (vd, True)))
   \<and> (distinct [A, B, C, D] \<and> NewLRUCache k0 v0 3 0 = Inr c0 \<longrightarrow>
     (\<exists>c1 c2 c3 c4.
        SetLRU c0 (Key A) va t1 = Some c1 \<and> SetLRU c1 (Key B) vb t2 = Some c2
      \<and> SetLRU c2 (Key C) vc t3 = Some c3 \<and> SetLRU c3 (Key D) vd t4 = Some c4
      \<and> towardTail (keys c3) = [Key C, Key B, Key A]
      \<and> fst (GetLRU c3 (Key A) t) = (va, True) \<and> fst (GetLRU c3 (Key B) t) = (vb, True)
      \<and> fst (GetLRU c3 (Key C) t) = (vc, True)
      \<and> towardTail (keys c4) = [Key D, Key C, Key B]
      \<and> fst (GetLRU c4 (Key A) t) = (0, False) \<and> fst (GetLRU c4 (Key B) t) = (vb, True)
      \<and> fst (GetLRU c4 (Key C) t) = (vc, True) \<and> fst (GetLRU c4 (Key D) t) = (vd, True)))
   \<and> (distinct [A, B, C, D] \<and> NewLRWCache k0 v0 2 0 = Inr c0 \<longrightarrow>
     (\<exists>c1 c2 c3 c4.
        SetLRW c0 (Key A) va t1 = Some c1 \<and> SetLRW c1 (Key B) vb t2 = Some c2
      \<and> SetLRW c2 (Key C) vc t3 = Some c3 \<and> SetLRW c3 (Key D) vd t4 = Some c4
      \<and> towardTail (keys c3) = [Key C, Key B]
      \<and> fst (GetLRW c3 (Key A)) = (0, False) \<and> fst (GetLRW c3 (Key B)) = (vb, True)
      \<and> fst (GetLRW c3 (Key C)) = (vc, True)
      \<and> towardTail (keys c4) = [Key D, Key C]
      \<and> fst (GetLRW c4 (Key B)) = (0, False) \<and> fst (GetLRW c4 (Key C)) = (vc, True)
      \<and> fst (GetLRW c4 (Key D)) = (vd, True)))
   \<and> (distinct [A, B, C, D] \<and> NewLRUCache k0 v0 2 0 = Inr c0 \<longrightarrow>
     (\<exists>c1 c2 c3 c4.
        SetLRU c0 (Key A) va t1 = Some c1 \<and> SetLRU c1 (Key B) vb t2 = Some c2
      \<and> SetLRU c2 (Key C) vc t3 = Some c3 \<and> SetLRU c3 (Key D) vd t4 = Some c4
      \<and> towardTail (keys c3) = [Key C, Key B]
      \<and> fst (GetLRU c3 (Key A) t) = (0, False) \<and> fst (GetLRU c3 (Key B) t) = (vb, True)
      \<and> fst (GetLRU c3 (Key C) t) = (vc, True)
      \<and> towardTail (keys c4) = [Key D, Key C]
      \<and> fst (GetLRU c4 (Key B) t) = (0, False) \<and> fst (GetLRU c4 (Key C) t) = (vc, True)
      \<and> fst (GetLRU c4 (Key D) t) = (vd, True)))"
  using oldest_first_lrw[of A B C D k0 v0 c0 va t1 vb t2 vc t3 vd t4]
    oldest_first_lrw3[of A B C D k0 v0 c0 va t1 vb t2 vc t3 vd t4]
  by (simp add: SetLRW_eq NewLRWCache_eq GetLRU_fst) blast

theorem C8_oldest_first_witness:
  "distinct [1, 2, 3, 4::int]
   \<and> NewLRWCache (Key (0::int)) (0::int) 3 0 = Inr \<lparr>m_cache = (makeMap :: (int, int) gomap), keys = newCacheTimeMap (Key (0::int)), maxSize = 3, maxAge = 0\<rparr>
   \<and> NewLRUCache (Key (0::int)) (0::int) 3 0 = Inr \<lparr>m_cache = (makeMap :: (int, int) gomap), keys = newCacheTimeMap (Key (0::int)), maxSize = 3, maxAge = 0\<rparr>
   \<and> NewLRWCache (Key (0::int)) (0::int) 2 0 = Inr \<lparr>m_cache = (makeMap :: (int, int) gomap), keys = newCacheTimeMap (Key (0::int)), maxSize = 2, maxAge = 0\<rparr>
   \<and> NewLRUCache (Key (0::int)) (0::int) 2 0 = Inr \<lparr>m_cache = (makeMap :: (int, int) gomap), keys = newCacheTimeMap (Key (0::int)), maxSize = 2, maxAge = 0\<rparr>
   \<and> (\<exists>c1 c2 c3 c4.
        SetLRW \<lparr>m_cache = (makeMap :: (int, int) gomap), keys = newCacheTimeMap (Key (0::int)), maxSize = 3, maxAge = 0\<rparr> (Key 1) 10 1 = Some c1 \<and> SetLRW c1 (Key 2) 20 2 = Some c2
      \<and> SetLRW c2 (Key 3) 30 3 = Some c3 \<and> SetLRW c3 (Key 4) 40 4 = Some c4
      \<and> towardTail (keys c3) = [Key 3, Key 2, Key 1]
      \<and> fst (GetLRW c3 (Key 1)) = (10, True) \<and> fst (GetLRW c3 (Key 2)) = (20, True)
      \<and> fst (GetLRW c3 (Key 3)) = (30, True)
      \<and> towardTail (keys c4) = [Key 4, Key 3, Key 2]
      \<and> fst (GetLRW c4 (Key 1)) = (0, False) \<and> fst (GetLRW c4 (Key 2)) = (20, True)
      \<and> fst (GetLRW c4 (Key 3)) = (30, True) \<and> fst (GetLRW c4 (Key 4)) = (40, True))
   \<and> (\<exists>c1 c2 c3 c4.
        SetLRU \<lparr>m_cache = (makeMap :: (int, int) gomap), keys = newCacheTimeMap (Key (0::int)), maxSize = 3, maxAge = 0\<rparr> (Key 1) 10 1 = Some c1 \<and> SetLRU c1 (Key 2) 20 2 = Some c2
      \<and> SetLRU c2 (Key 3) 30 3 = Some c3 \<and> SetLRU c3 (Key 4) 40 4 = Some c4
      \<and> towardTail (keys c3) = [Key 3, Key 2, Key 1]
      \<and> fst (GetLRU c3 (Key 1) 4) = (10, True) \<and> fst (GetLRU c3 (Key 2) 4) = (20, True)
      \<and> fst (GetLRU c3 (Key 3) 4) = (30, True)
      \<and> towardTail (keys c4) = [Key 4, Key 3, Key 2]
      \<and> fst (GetLRU c4 (Key 1) 4) = (0, False) \<and> fst (GetLRU c4 (Key 2) 4) = (20, True)
      \<and> fst (GetLRU c4 (Key 3) 4) = (30, True) \<and> fst (GetLRU c4 (Key 4) 4) = (40, True))
   \<and> (\<exists>c1 c2 c3 c4.
        SetLRW \<lparr>m_cache = (makeMap :: (int, int) gomap), keys = newCacheTimeMap (Key (0::int)), maxSize = 2, maxAge = 0\<rparr> (Key 1) 10 1 = Some c1 \<and> SetLRW c1 (Key 2) 20 2 = Some c2
      \<and> SetLRW c2 (Key 3) 30 3 = Some c3 \<and> SetLRW c3 (Key 4) 40 4 = Some c4
      \<and> towardTail (keys c3) = [Key 3, Key 2]
      \<and> fst (GetLRW c3 (Key 1)) = (0, False) \<and> fst (GetLRW c3 (Key 2)) = (20, True)
      \<and> fst (GetLRW c3 (Key 3)) = (30, True)
      \<and> towardTail (keys c4) = [Key 4, Key 3]
      \<and> fst (GetLRW c4 (Key 2)) = (0, False) \<and> fst (GetLRW c4 (Key 3)) = (30, True)
      \<and> fst (GetLRW c4 (Key 4)) = (40, True))
   \<and> (\<exists>c1 c2 c3 c4.
        SetLRU \<lparr>m_cache = (makeMap :: (int, int) gomap), keys = newCacheTimeMap (Key (0::int)), maxSize = 2, maxAge = 0\<rparr> (Key 1) 10 1 = Some c1 \<and> SetLRU c1 (Key 2) 20 2 = Some c2
      \<and> SetLRU c2 (Key 3) 30 3 = Some c3 \<and> SetLRU c3 (Key 4) 40 4 = Some c4
      \<and> towardTail (keys c3) = [Key 3, Key 2]
      \<and> fst (GetLRU c3 (Key 1) 4) = (0, False) \<and> fst (GetLRU c3 (Key 2) 4) = (20, True)
      \<and> fst (GetLRU c3 (Key 3) 4) = (30, True)
      \<and> towardTail (keys c4) = [Key 4, Key 3]
      \<and> fst (GetLRU c4 (Key 2) 4) = (0, False) \<and> fst (GetLRU c4 (Key 3) 4) = (30, True)
      \<and> fst (GetLRU c4 (Key 4) 4) = (40, True))"
proof -
  have n: "NewLRWCache (Key (0::int)) (0::int) 3 0 = Inr \<lparr>m_cache = (makeMap :: (int, int) gomap), keys = newCacheTimeMap (Key (0::int)), maxSize = 3, maxAge = 0\<rparr>"
    "NewLRUCache (Key (0::int)) (0::int) 3 0 = Inr \<lparr>m_cache = (makeMap :: (int, int) gomap), keys = newCacheTimeMap (Key (0::int)), maxSize = 3, maxAge = 0\<rparr>"
    "NewLRWCache (Key (0::int)) (0::int) 2 0 = Inr \<lparr>m_cache = (makeMap :: (int, int) gomap), keys = newCacheTimeMap (Key (0::int)), maxSize = 2, maxAge = 0\<rparr>"
    "NewLRUCache (Key (0::int)) (0::int) 2 0 = Inr \<lparr>m_cache = (makeMap :: (int, int) gomap), keys = newCacheTimeMap (Key (0::int)), maxSize = 2, maxAge = 0\<rparr>"
    by (simp_all add: NewLRWCache_def NewLRUCache_def)
  have d: "distinct [1, 2, 3, 4::int]" by simp
  note t3 = C8_oldest_first[of 1 2 3 4 "Key (0::int)" "0::int" "\<lparr>m_cache = (makeMap :: (int, int) gomap), keys = newCacheTimeMap (Key (0::int)), maxSize = 3, maxAge = 0\<rparr>" 10 1 20 2 30 3 40 4 4]
  note t2 = C8_oldest_first[of 1 2 3 4 "Key (0::int)" "0::int" "\<lparr>m_cache = (makeMap :: (int, int) gomap), keys = newCacheTimeMap (Key (0::int)), maxSize = 2, maxAge = 0\<rparr>" 10 1 20 2 30 3 40 4 4]
  have a: "(\<exists>c1 c2 c3 c4.
        SetLRW \<lparr>m_cache = (makeMap :: (int, int) gomap), keys = newCacheTimeMap (Key (0::int)), maxSize = 3, maxAge = 0\<rparr> (Key 1) 10 1 = Some c1 \<and> SetLRW c1 (Key 2) 20 2 = Some c2
      \<and> SetLRW c2 (Key 3) 30 3 = Some c3 \<and> SetLRW c3 (Key 4) 40 4 = Some c4
      \<and> towardTail (keys c3) = [Key 3, Key 2, Key 1]
      \<and> fst (GetLRW c3 (Key 1)) = (10, True) \<and> fst (GetLRW c3 (Key 2)) = (20, True)
      \<and> fst (GetLRW c3 (Key 3)) = (30, True)
      \<and> towardTail (keys c4) = [Key 4, Key 3, Key 2]
      \<and> fst (GetLRW c4 (Key 1)) = (0, False) \<and> fst (GetLRW c4 (Key 2)) = (20, True)
      \<and> fst (GetLRW c4 (Key 3)) = (30, True) \<and> fst (GetLRW c4 (Key 4)) = (40, True))"
    using t3 n d by blast
  have b: "(\<exists>c1 c2 c3 c4.
        SetLRU \<lparr>m_cache = (makeMap :: (int, int) gomap), keys = newCacheTimeMap (Key (0::int)), maxSize = 3, maxAge = 0\<rparr> (Key 1) 10 1 = Some c1 \<and> SetLRU c1 (Key 2) 20 2 = Some c2
      \<and> SetLRU c2 (Key 3) 30 3 = Some c3 \<and> SetLRU c3 (Key 4) 40 4 = Some c4
      \<and> towardTail (keys c3) = [Key 3, Key 2, Key 1]
      \<and> fst (GetLRU c3 (Key 1) 4) = (10, True) \<and> fst (GetLRU c3 (Key 2) 4) = (20, True)
      \<and> fst (GetLRU c3 (Key 3) 4) = (30, True)
      \<and> towardTail (keys c4) = [Key 4, Key 3, Key 2]
      \<and> fst (GetLRU c4 (Key 1) 4) = (0, False) \<and> fst (GetLRU c4 (Key 2) 4) = (20, True)
      \<and> fst (GetLRU c4 (Key 3) 4) = (30, True) \<and> fst (GetLRU c4 (Key 4) 4) = (40, True))"
    using t3 n d by blast
  have c: "(\<exists>c1 c2 c3 c4.
        SetLRW \<lparr>m_cache = (makeMap :: (int, int) gomap), keys = newCacheTimeMap (Key (0::int)), maxSize = 2, maxAge = 0\<rparr> (Key 1) 10 1 = Some c1 \<and> SetLRW c1 (Key 2) 20 2 = Some c2
      \<and> SetLRW c2 (Key 3) 30 3 = Some c3 \<and> SetLRW c3 (Key 4) 40 4 = Some c4
      \<and> towardTail (keys c3) = [Key 3, Key 2]
      \<and> fst (GetLRW c3 (Key 1)) = (0, False) \<and> fst (GetLRW c3 (Key 2)) = (20, True)
      \<and> fst (GetLRW c3 (Key 3)) = (30, True)
      \<and> towardTail (keys c4) = [Key 4, Key 3]
      \<and> fst (GetLRW c4 (Key 2)) = (0, False) \<and> fst (GetLRW c4 (Key 3)) = (30, True)
      \<and> fst (GetLRW c4 (Key 4)) = (40, True))"
    using t2 n d by blast
  have e: "(\<exists>c1 c2 c3 c4.
        SetLRU \<lparr>m_cache = (makeMap :: (int, int) gomap), keys = newCacheTimeMap (Key (0::int)), maxSize = 2, maxAge = 0\<rparr> (Key 1) 10 1 = Some c1 \<and> SetLRU c1 (Key 2) 20 2 = Some c2
      \<and> SetLRU c2 (Key 3) 30 3 = Some c3 \<and> SetLRU c3 (Key 4) 40 4 = Some c4
      \<and> towardTail (keys c3) = [Key 3, Key 2]
      \<and> fst (GetLRU c3 (Key 1) 4) = (0, False) \<and> fst (GetLRU c3 (Key 2) 4) = (20, True)
      \<and> fst (GetLRU c3 (Key 3) 4) = (30, True)
      \<and> towardTail (keys c4) = [Key 4, Key 3]
      \<and> fst (GetLRU c4 (Key 2) 4) = (0, False) \<and> fst (GetLRU c4 (Key 3) 4) = (30, True)
      \<and> fst (GetLRU c4 (Key 4) 4) = (40, True))"
    using t2 n d by blast
  show ?thesis using n d a b c e by blast
qed

theorem C8_fourth_insert_counterexample:
  "SetLRW \<lparr>m_cache = (makeMap :: (int, int) gomap), keys = newCacheTimeMap (Key (0::int)), maxSize = 2, maxAge = 0\<rparr> (Key 1) 10 1 =
     Some \<lparr>m_cache = GoMap (fmupd (1::int) (10::int) fmempty) [], keys = \<lparr>m_ctm = GoMap (fmupd 1 \<lparr>prev = Key 1, next = Key 1, timestamp = 1\<rparr> fmempty) [], first = Key 1, last_ctm = Key 1\<rparr>, maxSize = 2, maxAge = 0\<rparr>
   \<and> SetLRW \<lparr>m_cache = GoMap (fmupd (1::int) (10::int) fmempty) [], keys = \<lparr>m_ctm = GoMap (fmupd 1 \<lparr>prev = Key 1, next = Key 1, timestamp = 1\<rparr> fmempty) [], first = Key 1, last_ctm = Key 1\<rparr>, maxSize = 2, maxAge = 0\<rparr> (Key 2) 20 2 =
     Some \<lparr>m_cache = GoMap (fmupd 2 20 (fmupd (1::int) (10::int) fmempty)) [], keys = \<lparr>m_ctm = GoMap (fmupd 2 \<lparr>prev = Key 2, next = Key 1, timestamp = 2\<rparr> (fmupd 1 \<lparr>prev = Key 2, next = Key 1, timestamp = 1\<rparr> fmempty)) [], first = Key 2, last_ctm = Key 1\<rparr>, maxSize = 2, maxAge = 0\<rparr>
   \<and> SetLRW \<lparr>m_cache = GoMap (fmupd 2 20 (fmupd (1::int) (10::int) fmempty)) [], keys = \<lparr>m_ctm = GoMap (fmupd 2 \<lparr>prev = Key 2, next = Key 1, timestamp = 2\<rparr> (fmupd 1 \<lparr>prev = Key 2, next = Key 1, timestamp = 1\<rparr> fmempty)) [], first = Key 2, last_ctm = Key 1\<rparr>, maxSize = 2, maxAge = 0\<rparr> (Key 3) 30 3 =
     Some \<lparr>m_cache = GoMap (fmupd 3 30 (fmupd (2::int) (20::int) fmempty)) [], keys = \<lparr>m_ctm = GoMap (fmupd 3 \<lparr>prev = Key 3, next = Key 2, timestamp = 3\<rparr> (fmupd 2 \<lparr>prev = Key 3, next = Key 2, timestamp = 2\<rparr> fmempty)) [], first = Key 3, last_ctm = Key 2\<rparr>, maxSize = 2, maxAge = 0\<rparr>
   \<and> fst (GetLRW \<lparr>m_cache = GoMap (fmupd 3 30 (fmupd (2::int) (20::int) fmempty)) [], keys = \<lparr>m_ctm = GoMap (fmupd 3 \<lparr>prev = Key 3, next = Key 2, timestamp = 3\<rparr> (fmupd 2 \<lparr>prev = Key 3, next = Key 2, timestamp = 2\<rparr> fmempty)) [], first = Key 3, last_ctm = Key 2\<rparr>, maxSize = 2, maxAge = 0\<rparr> (Key 1)) = (0, False)
   \<and> fst (GetLRW \<lparr>m_cache = GoMap (fmupd 3 30 (fmupd (2::int) (20::int) fmempty)) [], keys = \<lparr>m_ctm = GoMap (fmupd 3 \<lparr>prev = Key 3, next = Key 2, timestamp = 3\<rparr> (fmupd 2 \<lparr>prev = Key 3, next = Key 2, timestamp = 2\<rparr> fmempty)) [], first = Key 3, last_ctm = Key 2\<rparr>, maxSize = 2, maxAge = 0\<rparr> (Key 2)) = (20, True)
   \<and> SetLRW \<lparr>m_cache = GoMap (fmupd 3 30 (fmupd (2::int) (20::int) fmempty)) [], keys = \<lparr>m_ctm = GoMap (fmupd 3 \<lparr>prev = Key 3, next = Key 2, timestamp = 3\<rparr> (fmupd 2 \<lparr>prev = Key 3, next = Key 2, timestamp = 2\<rparr> fmempty)) [], first = Key 3, last_ctm = Key 2\<rparr>, maxSize = 2, maxAge = 0\<rparr> (Key 4) 40 4 =
     Some \<lparr>m_cache = GoMap (fmupd 4 40 (fmupd (3::int) (30::int) fmempty)) [], keys = \<lparr>m_ctm = GoMap (fmupd 4 \<lparr>prev = Key 4, next = Key 3, timestamp = 4\<rparr> (fmupd 3 \<lparr>prev = Key 4, next = Key 3, timestamp = 3\<rparr> fmempty)) [], first = Key 4, last_ctm = Key 3\<rparr>, maxSize = 2, maxAge = 0\<rparr>
   \<and> fst (GetLRW \<lparr>m_cache = GoMap (fmupd 4 40 (fmupd (3::int) (30::int) fmempty)) [], keys = \<lparr>m_ctm = GoMap (fmupd 4 \<lparr>prev = Key 4, next = Key 3, timestamp = 4\<rparr> (fmupd 3 \<lparr>prev = Key 4, next = Key 3, timestamp = 3\<rparr> fmempty)) [], first = Key 4, last_ctm = Key 3\<rparr>, maxSize = 2, maxAge = 0\<rparr> (Key 2)) = (0, False)
   \<and> SetLRW \<lparr>m_cache = (makeMap :: (int, int) gomap), keys = newCacheTimeMap (Key (0::int)), maxSize = 3, maxAge = 0\<rparr> (NaN 1) 10 1 =
     Some \<lparr>m_cache = GoMap (fmempty) [((1::int), (10::int))], keys = \<lparr>m_ctm = GoMap (fmempty) [(1, \<lparr>prev = NaN 1, next = NaN 1, timestamp = 1\<rparr>)], first = NaN 1, last_ctm = NaN 1\<rparr>, maxSize = 3, maxAge = 0\<rparr>
   \<and> SetLRW \<lparr>m_cache = GoMap (fmempty) [((1::int), (10::int))], keys = \<lparr>m_ctm = GoMap (fmempty) [(1, \<lparr>prev = NaN 1, next = NaN 1, timestamp = 1\<rparr>)], first = NaN 1, last_ctm = NaN 1\<rparr>, maxSize = 3, maxAge = 0\<rparr> (Key 2) 20 2 =
     Some \<lparr>m_cache = GoMap (fmupd (2::int) (20::int) fmempty) [((1::int), (10::int))], keys = \<lparr>m_ctm = GoMap (fmupd 2 \<lparr>prev = Key 2, next = NaN 1, timestamp = 2\<rparr> fmempty) [(1, \<lparr>prev = NaN 1, next = NaN 1, timestamp = 1\<rparr>), (1, \<lparr>prev = Key 2, next = Key 0, timestamp = 0\<rparr>)], first = Key 2, last_ctm = NaN 1\<rparr>, maxSize = 3, maxAge = 0\<rparr>
   \<and> SetLRW \<lparr>m_cache = GoMap (fmupd (2::int) (20::int) fmempty) [((1::int), (10::int))], keys = \<lparr>m_ctm = GoMap (fmupd 2 \<lparr>prev = Key 2, next = NaN 1, timestamp = 2\<rparr> fmempty) [(1, \<lparr>prev = NaN 1, next = NaN 1, timestamp = 1\<rparr>), (1, \<lparr>prev = Key 2, next = Key 0, timestamp = 0\<rparr>)], first = Key 2, last_ctm = NaN 1\<rparr>, maxSize = 3, maxAge = 0\<rparr> (Key 3) 30 3 =
     Some \<lparr>m_cache = GoMap (fmupd 3 30 (fmupd (2::int) (20::int) fmempty)) [((1::int), (10::int))], keys = \<lparr>m_ctm = GoMap (fmupd 3 \<lparr>prev = Key 3, next = Key 2, timestamp = 3\<rparr> (fmupd 2 \<lparr>prev = Key 3, next = NaN 1, timestamp = 2\<rparr> fmempty)) [(1, \<lparr>prev = NaN 1, next = NaN 1, timestamp = 1\<rparr>), (1, \<lparr>prev = Key 2, next = Key 0, timestamp = 0\<rparr>)], first = Key 3, last_ctm = NaN 1\<rparr>, maxSize = 3, maxAge = 0\<rparr>
   \<and> fst (GetLRW \<lparr>m_cache = GoMap (fmupd 3 30 (fmupd (2::int) (20::int) fmempty)) [((1::int), (10::int))], keys = \<lparr>m_ctm = GoMap (fmupd 3 \<lparr>prev = Key 3, next = Key 2, timestamp = 3\<rparr> (fmupd 2 \<lparr>prev = Key 3, next = NaN 1, timestamp = 2\<rparr> fmempty)) [(1, \<lparr>prev = NaN 1, next = NaN 1, timestamp = 1\<rparr>), (1, \<lparr>prev = Key 2, next = Key 0, timestamp = 0\<rparr>)], first = Key 3, last_ctm = NaN 1\<rparr>, maxSize = 3, maxAge = 0\<rparr> (NaN 1)) = (0, False)"
proof -
  have a1: "SetLRW \<lparr>m_cache = (makeMap :: (int, int) gomap), keys = newCacheTimeMap (Key (0::int)), maxSize = 2, maxAge = 0\<rparr> (Key 1) 10 1 =
     Some \<lparr>m_cache = GoMap (fmupd (1::int) (10::int) fmempty) [], keys = \<lparr>m_ctm = GoMap (fmupd 1 \<lparr>prev = Key 1, next = Key 1, timestamp = 1\<rparr> fmempty) [], first = Key 1, last_ctm = Key 1\<rparr>, maxSize = 2, maxAge = 0\<rparr>"
    by (simp add: cache_evals)
  have a2: "SetLRW \<lparr>m_cache = GoMap (fmupd (1::int) (10::int) fmempty) [], keys = \<lparr>m_ctm = GoMap (fmupd 1 \<lparr>prev = Key 1, next = Key 1, timestamp = 1\<rparr> fmempty) [], first = Key 1, last_ctm = Key 1\<rparr>, maxSize = 2, maxAge = 0\<rparr> (Key 2) 20 2 =
     Some \<lparr>m_cache = GoMap (fmupd 2 20 (fmupd (1::int) (10::int) fmempty)) [], keys = \<lparr>m_ctm = GoMap (fmupd 2 \<lparr>prev = Key 2, next = Key 1, timestamp = 2\<rparr> (fmupd 1 \<lparr>prev = Key 2, next = Key 1, timestamp = 1\<rparr> fmempty)) [], first = Key 2, last_ctm = Key 1\<rparr>, maxSize = 2, maxAge = 0\<rparr>"
    by (simp add: cache_evals)
  have a3: "SetLRW \<lparr>m_cache = GoMap (fmupd 2 20 (fmupd (1::int) (10::int) fmempty)) [], keys = \<lparr>m_ctm = GoMap (fmupd 2 \<lparr>prev = Key 2, next = Key 1, timestamp = 2\<rparr> (fmupd 1 \<lparr>prev = Key 2, next = Key 1, timestamp = 1\<rparr> fmempty)) [], first = Key 2, last_ctm = Key 1\<rparr>, maxSize = 2, maxAge = 0\<rparr> (Key 3) 30 3 =
     Some \<lparr>m_cache = GoMap (fmupd 3 30 (fmupd (2::int) (20::int) fmempty)) [], keys = \<lparr>m_ctm = GoMap (fmupd 3 \<lparr>prev = Key 3, next = Key 2, timestamp = 3\<rparr> (fmupd 2 \<lparr>prev = Key 3, next = Key 2, timestamp = 2\<rparr> fmempty)) [], first = Key 3, last_ctm = Key 2\<rparr>, maxSize = 2, maxAge = 0\<rparr>"
    by (simp add: cache_evals fmdrop_fmupd) (auto intro!: fmap_ext)
  have a4: "SetLRW \<lparr>m_cache = GoMap (fmupd 3 30 (fmupd (2::int) (20::int) fmempty)) [], keys = \<lparr>m_ctm = GoMap (fmupd 3 \<lparr>prev = Key 3, next = Key 2, timestamp = 3\<rparr> (fmupd 2 \<lparr>prev = Key 3, next = Key 2, timestamp = 2\<rparr> fmempty)) [], first = Key 3, last_ctm = Key 2\<rparr>, maxSize = 2, maxAge = 0\<rparr> (Key 4) 40 4 =
     Some \<lparr>m_cache = GoMap (fmupd 4 40 (fmupd (3::int) (30::int) fmempty)) [], keys = \<lparr>m_ctm = GoMap (fmupd 4 \<lparr>prev = Key 4, next = Key 3, timestamp = 4\<rparr> (fmupd 3 \<lparr>prev = Key 4, next = Key 3, timestamp = 3\<rparr> fmempty)) [], first = Key 4, last_ctm = Key 3\<rparr>, maxSize = 2, maxAge = 0\<rparr>"
    by (simp add: cache_evals fmdrop_fmupd) (auto intro!: fmap_ext)
  have g: "fst (GetLRW \<lparr>m_cache = GoMap (fmupd 3 30 (fmupd (2::int) (20::int) fmempty)) [], keys = \<lparr>m_ctm = GoMap (fmupd 3 \<lparr>prev = Key 3, next = Key 2, timestamp = 3\<rparr> (fmupd 2 \<lparr>prev = Key 3, next = Key 2, timestamp = 2\<rparr> fmempty)) [], first = Key 3, last_ctm = Key 2\<rparr>, maxSize = 2, maxAge = 0\<rparr> (Key 1)) = (0, False)"
    "fst (GetLRW \<lparr>m_cache = GoMap (fmupd 3 30 (fmupd (2::int) (20::int) fmempty)) [], keys = \<lparr>m_ctm = GoMap (fmupd 3 \<lparr>prev = Key 3, next = Key 2, timestamp = 3\<rparr> (fmupd 2 \<lparr>prev = Key 3, next = Key 2, timestamp = 2\<rparr> fmempty)) [], first = Key 3, last_ctm = Key 2\<rparr>, maxSize = 2, maxAge = 0\<rparr> (Key 2)) = (20, True)"
    "fst (GetLRW \<lparr>m_cache = GoMap (fmupd 4 40 (fmupd (3::int) (30::int) fmempty)) [], keys = \<lparr>m_ctm = GoMap (fmupd 4 \<lparr>prev = Key 4, next = Key 3, timestamp = 4\<rparr> (fmupd 3 \<lparr>prev = Key 4, next = Key 3, timestamp = 3\<rparr> fmempty)) [], first = Key 4, last_ctm = Key 3\<rparr>, maxSize = 2, maxAge = 0\<rparr> (Key 2)) = (0, False)"
    by (simp_all add: GetLRW_def)
  have b1: "SetLRW \<lparr>m_cache = (makeMap :: (int, int) gomap), keys = newCacheTimeMap (Key (0::int)), maxSize = 3, maxAge = 0\<rparr> (NaN 1) 10 1 =
     Some \<lparr>m_cache = GoMap (fmempty) [((1::int), (10::int))], keys = \<lparr>m_ctm = GoMap (fmempty) [(1, \<lparr>prev = NaN 1, next = NaN 1, timestamp = 1\<rparr>)], first = NaN 1, last_ctm = NaN 1\<rparr>, maxSize = 3, maxAge = 0\<rparr>"
    by (simp add: cache_evals)
  have b2: "SetLRW \<lparr>m_cache = GoMap (fmempty) [((1::int), (10::int))], keys = \<lparr>m_ctm = GoMap (fmempty) [(1, \<lparr>prev = NaN 1, next = NaN 1, timestamp = 1\<rparr>)], first = NaN 1, last_ctm = NaN 1\<rparr>, maxSize = 3, maxAge = 0\<rparr> (Key 2) 20 2 =
     Some \<lparr>m_cache = GoMap (fmupd (2::int) (20::int) fmempty) [((1::int), (10::int))], keys = \<lparr>m_ctm = GoMap (fmupd 2 \<lparr>prev = Key 2, next = NaN 1, timestamp = 2\<rparr> fmempty) [(1, \<lparr>prev = NaN 1, next = NaN 1, timestamp = 1\<rparr>), (1, \<lparr>prev = Key 2, next = Key 0, timestamp = 0\<rparr>)], first = Key 2, last_ctm = NaN 1\<rparr>, maxSize = 3, maxAge = 0\<rparr>"
    by (simp add: cache_evals)
  have b3: "SetLRW \<lparr>m_cache = GoMap (fmupd (2::int) (20::int) fmempty) [((1::int), (10::int))], keys = \<lparr>m_ctm = GoMap (fmupd 2 \<lparr>prev = Key 2, next = NaN 1, timestamp = 2\<rparr> fmempty) [(1, \<lparr>prev = NaN 1, next = NaN 1, timestamp = 1\<rparr>), (1, \<lparr>prev = Key 2, next = Key 0, timestamp = 0\<rparr>)], first = Key 2, last_ctm = NaN 1\<rparr>, maxSize = 3, maxAge = 0\<rparr> (Key 3) 30 3 =
     Some \<lparr>m_cache = GoMap (fmupd 3 30 (fmupd (2::int) (20::int) fmempty)) [((1::int), (10::int))], keys = \<lparr>m_ctm = GoMap (fmupd 3 \<lparr>prev = Key 3, next = Key 2, timestamp = 3\<rparr> (fmupd 2 \<lparr>prev = Key 3, next = NaN 1, timestamp = 2\<rparr> fmempty)) [(1, \<lparr>prev = NaN 1, next = NaN 1, timestamp = 1\<rparr>), (1, \<lparr>prev = Key 2, next = Key 0, timestamp = 0\<rparr>)], first = Key 3, last_ctm = NaN 1\<rparr>, maxSize = 3, maxAge = 0\<rparr>"
    by (simp add: cache_evals)
  have h: "fst (GetLRW \<lparr>m_cache = GoMap (fmupd 3 30 (fmupd (2::int) (20::int) fmempty)) [((1::int), (10::int))], keys = \<lparr>m_ctm = GoMap (fmupd 3 \<lparr>prev = Key 3, next = Key 2, timestamp = 3\<rparr> (fmupd 2 \<lparr>prev = Key 3, next = NaN 1, timestamp = 2\<rparr> fmempty)) [(1, \<lparr>prev = NaN 1, next = NaN 1, timestamp = 1\<rparr>), (1, \<lparr>prev = Key 2, next = Key 0, timestamp = 0\<rparr>)], first = Key 3, last_ctm = NaN 1\<rparr>, maxSize = 3, maxAge = 0\<rparr> (NaN 1)) = (0, False)"
    by (simp add: GetLRW_def)
  show ?thesis using a1 a2 a3 g a4 b1 b2 b3 h by (intro conjI)
qed

text \<open>
  C9. Each constructor returns the configuration error exactly when \<open>maxSize\<close> is
  not positive and \<open>maxAge\<close> is zero, and then no cache is made; in every other case
  it returns the empty cache with the two bounds. \<open>Set\<close> and \<open>Get\<close> have no error
  result. In every state reached from a constructed cache with keys that are equal to
  themselves, \<open>Set\<close> at such a key returns a cache (\<open>Get\<close> has no loop and no
  failing branch at all).
\<close>

theorem C9_constructor:
  "(NewLRUCache k0 v0 sz age = Inl IncorrectlySpecified \<longleftrightarrow> sz \<le> 0 \<and> age = 0)
   \<and> (NewLRWCache k0 v0 sz age = Inl IncorrectlySpecified \<longleftrightarrow> sz \<le> 0 \<and> age = 0)
   \<and> (\<not> (sz \<le> 0 \<and> age = 0) \<longrightarrow>
        NewLRUCache k0 v0 sz age =
          Inr \<lparr>m_cache = makeMap, keys = newCacheTimeMap k0, maxSize = sz, maxAge = age\<rparr>
        \<and> NewLRWCache k0 v0 sz age =
          Inr \<lparr>m_cache = makeMap, keys = newCacheTimeMap k0, maxSize = sz, maxAge = age\<rparr>)
   \<and> (lru_reachable selfEq sz age c \<and> selfEq k \<longrightarrow> (\<exists>c'. SetLRU c k v now = Some c'))
   \<and> (lrw_reachable selfEq sz age c \<and> selfEq k \<longrightarrow> (\<exists>c'. SetLRW c k v now = Some c'))"
proof (intro conjI impI)
  assume a: "lru_reachable selfEq sz age c \<and> selfEq k"
  then obtain ks where ks: "lru_inv c ks" using lru_reachable_inv[of sz age c] by blast
  obtain x where x: "k = Key x" using a by (cases k) auto
  show "\<exists>c'. SetLRU c k v now = Some c'"
    using SetLRU_run[OF ks, of x v now] unfolding x by blast
next
  assume a: "lrw_reachable selfEq sz age c \<and> selfEq k"
  then obtain ks where ks: "lrw_inv c ks" using lrw_reachable_inv[of sz age c] by blast
  obtain x where x: "k = Key x" using a by (cases k) auto
  show "\<exists>c'. SetLRW c k v now = Some c'"
    using SetLRW_run[OF ks, of x v now] unfolding x by blast
qed (auto simp: NewLRUCache_def NewLRWCache_def)

theorem C9_constructor_witness:
  "NewLRUCache (Key (0::int)) (0::int) 0 0 = Inl IncorrectlySpecified
   \<and> NewLRWCache (Key (0::int)) (0::int) (-3) 0 = Inl IncorrectlySpecified
   \<and> NewLRUCache (Key (0::int)) (0::int) 0 (-1) =
        Inr \<lparr>m_cache = (makeMap :: (int, int) gomap), keys = newCacheTimeMap (Key (0::int)), maxSize = 0, maxAge = -1\<rparr>
   \<and> NewLRWCache (Key (0::int)) (0::int) 0 (-1) =
        Inr \<lparr>m_cache = (makeMap :: (int, int) gomap), keys = newCacheTimeMap (Key (0::int)), maxSize = 0, maxAge = -1\<rparr>
   \<and> lru_reachable selfEq 0 (-1) \<lparr>m_cache = (makeMap :: (int, int) gomap), keys = newCacheTimeMap (Key (0::int)), maxSize = 0, maxAge = -1\<rparr>
   \<and> lrw_reachable selfEq 0 (-1) \<lparr>m_cache = (makeMap :: (int, int) gomap), keys = newCacheTimeMap (Key (0::int)), maxSize = 0, maxAge = -1\<rparr>
   \<and> (\<exists>c'. SetLRU \<lparr>m_cache = (makeMap :: (int, int) gomap), keys = newCacheTimeMap (Key (0::int)), maxSize = 0, maxAge = -1\<rparr> (Key 1) 10 5 = Some c')
   \<and> (\<exists>c'. SetLRW \<lparr>m_cache = (makeMap :: (int, int) gomap), keys = newCacheTimeMap (Key (0::int)), maxSize = 0, maxAge = -1\<rparr> (Key 1) 10 5 = Some c')"
proof -
  let ?c0 = "\<lparr>m_cache = (makeMap :: (int, int) gomap), keys = newCacheTimeMap (Key (0::int)), maxSize = 0, maxAge = -1\<rparr>"
  have u0: "lru_reachable selfEq 0 (-1) ?c0"
    by (rule lru_new[of "Key 0" 0]) (simp add: NewLRUCache_def)
  have w0: "lrw_reachable selfEq 0 (-1) ?c0"
    by (rule lrw_new[of "Key 0" 0]) (simp add: NewLRWCache_def)
  show ?thesis
    using u0 w0 C9_constructor[of "Key (0::int)" "0::int" 0 0 ?c0 "Key 1" 10 5]
      C9_constructor[of "Key (0::int)" "0::int" "-3" 0 ?c0 "Key 1" 10 5]
      C9_constructor[of "Key (0::int)" "0::int" 0 "-1" ?c0 "Key 1" 10 5]
    by simp
qed

text \<open>
  C10 (amended). In every state reached from a constructed cache of either variant
  with keys that are equal to themselves, and for every key \<open>k\<close> that is equal to
  itself, \<open>Set(k, v)\<close> returns, and \<open>Get(k)\<close> called on the result at the same time
  returns \<open>(v, true)\<close>: the eviction run inside \<open>Set\<close> never drops the key that this
  \<open>Set\<close> wrote.
\<close>

theorem C10_set_then_get:
  "(lru_reachable selfEq sz age c \<and> selfEq k \<longrightarrow>
      (\<exists>c'. SetLRU c k v now = Some c' \<and> fst (GetLRU c' k now) = (v, True)))
   \<and> (lrw_reachable selfEq sz age c \<and> selfEq k \<longrightarrow>
      (\<exists>c'. SetLRW c k v now = Some c' \<and> fst (GetLRW c' k) = (v, True)))"
proof (intro conjI impI)
  assume a: "lru_reachable selfEq sz age c \<and> selfEq k"
  then obtain ks where ks: "lru_inv c ks" using lru_reachable_inv[of sz age c] by blast
  obtain x where x: "k = Key x" using a by (cases k) auto
  show "\<exists>c'. SetLRU c k v now = Some c' \<and> fst (GetLRU c' k now) = (v, True)"
    using SetLRU_run[OF ks, of x v now] unfolding x
    by (auto simp: GetLRU_def Let_def simp del: len_0)
next
  assume a: "lrw_reachable selfEq sz age c \<and> selfEq k"
  then obtain ks where ks: "lrw_inv c ks" using lrw_reachable_inv[of sz age c] by blast
  obtain x where x: "k = Key x" using a by (cases k) auto
  show "\<exists>c'. SetLRW c k v now = Some c' \<and> fst (GetLRW c' k) = (v, True)"
    using SetLRW_run[OF ks, of x v now] unfolding x
    by (auto simp: GetLRW_def simp del: len_0)
qed

theorem C10_set_then_get_witness:
  "lru_reachable selfEq 1 3 \<lparr>m_cache = GoMap (fmupd (1::int) (10::int) fmempty) [], keys = \<lparr>m_ctm = GoMap (fmupd 1 \<lparr>prev = Key 1, next = Key 1, timestamp = 5\<rparr> fmempty) [], first = Key 1, last_ctm = Key 1\<rparr>, maxSize = 1, maxAge = 3\<rparr>
   \<and> lrw_reachable selfEq 1 3 \<lparr>m_cache = GoMap (fmupd (1::int) (10::int) fmempty) [], keys = \<lparr>m_ctm = GoMap (fmupd 1 \<lparr>prev = Key 1, next = Key 1, timestamp = 5\<rparr> fmempty) [], first = Key 1, last_ctm = Key 1\<rparr>, maxSize = 1, maxAge = 3\<rparr>
   \<and> selfEq (Key (2::int))
   \<and> (\<exists>c'. SetLRU \<lparr>m_cache = GoMap (fmupd (1::int) (10::int) fmempty) [], keys = \<lparr>m_ctm = GoMap (fmupd 1 \<lparr>prev = Key 1, next = Key 1, timestamp = 5\<rparr> fmempty) [], first = Key 1, last_ctm = Key 1\<rparr>, maxSize = 1, maxAge = 3\<rparr> (Key 2) 20 9 = Some c' \<and> fst (GetLRU c' (Key 2) 9) = (20, True))
   \<and> (\<exists>c'. SetLRW \<lparr>m_cache = GoMap (fmupd (1::int) (10::int) fmempty) [], keys = \<lparr>m_ctm = GoMap (fmupd 1 \<lparr>prev = Key 1, next = Key 1, timestamp = 5\<rparr> fmempty) [], first = Key 1, last_ctm = Key 1\<rparr>, maxSize = 1, maxAge = 3\<rparr> (Key 2) 20 9 = Some c' \<and> fst (GetLRW c' (Key 2)) = (20, True))"
proof -
  let ?c0 = "\<lparr>m_cache = (makeMap :: (int, int) gomap), keys = newCacheTimeMap (Key (0::int)), maxSize = 1, maxAge = 3\<rparr>"
  let ?c1 = "\<lparr>m_cache = GoMap (fmupd (1::int) (10::int) fmempty) [], keys = \<lparr>m_ctm = GoMap (fmupd 1 \<lparr>prev = Key 1, next = Key 1, timestamp = 5\<rparr> fmempty) [], first = Key 1, last_ctm = Key 1\<rparr>, maxSize = 1, maxAge = 3\<rparr>"
  have u0: "lru_reachable selfEq 1 3 ?c0"
    by (rule lru_new[of "Key 0" 0]) (simp add: NewLRUCache_def)
  have w0: "lrw_reachable selfEq 1 3 ?c0"
    by (rule lrw_new[of "Key 0" 0]) (simp add: NewLRWCache_def)
  have s1: "SetLRU ?c0 (Key 1) 10 5 = Some ?c1" by (simp add: cache_evals)
  have u1: "lru_reachable selfEq 1 3 ?c1" by (rule lru_set[OF u0 _ s1]) simp
  have s1w: "SetLRW ?c0 (Key 1) 10 5 = Some ?c1" by (simp add: cache_evals)
  have w1: "lrw_reachable selfEq 1 3 ?c1" by (rule lrw_set[OF w0 _ s1w]) simp
  show ?thesis
    using u1 w1 C10_set_then_get[of 1 3 ?c1 "Key 2" 20 9] by simp
qed

theorem C10_nan_key_counterexample:
  "NewLRWCache (Key (0::int)) (0::int) 1 0 = Inr \<lparr>m_cache = (makeMap :: (int, int) gomap), keys = newCacheTimeMap (Key (0::int)), maxSize = 1, maxAge = 0\<rparr>
   \<and> NewLRUCache (Key (0::int)) (0::int) 1 0 = Inr \<lparr>m_cache = (makeMap :: (int, int) gomap), keys = newCacheTimeMap (Key (0::int)), maxSize = 1, maxAge = 0\<rparr>
   \<and> SetLRW \<lparr>m_cache = (makeMap :: (int, int) gomap), keys = newCacheTimeMap (Key (0::int)), maxSize = 1, maxAge = 0\<rparr> (NaN 0) 7 5 =
       Some \<lparr>m_cache = GoMap (fmempty) [((0::int), (7::int))], keys = \<lparr>m_ctm = GoMap (fmempty) [(0, \<lparr>prev = NaN 0, next = NaN 0, timestamp = 5\<rparr>)], first = NaN 0, last_ctm = NaN 0\<rparr>, maxSize = 1, maxAge = 0\<rparr>
   \<and> fst (GetLRW \<lparr>m_cache = GoMap (fmempty) [((0::int), (7::int))], keys = \<lparr>m_ctm = GoMap (fmempty) [(0, \<lparr>prev = NaN 0, next = NaN 0, timestamp = 5\<rparr>)], first = NaN 0, last_ctm = NaN 0\<rparr>, maxSize = 1, maxAge = 0\<rparr> (NaN 0)) = (0, False)
   \<and> SetLRU \<lparr>m_cache = (makeMap :: (int, int) gomap), keys = newCacheTimeMap (Key (0::int)), maxSize = 1, maxAge = 0\<rparr> (NaN 0) 7 5 =
       Some \<lparr>m_cache = GoMap (fmempty) [((0::int), (7::int))], keys = \<lparr>m_ctm = GoMap (fmempty) [(0, \<lparr>prev = NaN 0, next = NaN 0, timestamp = 5\<rparr>)], first = NaN 0, last_ctm = NaN 0\<rparr>, maxSize = 1, maxAge = 0\<rparr>
   \<and> fst (GetLRU \<lparr>m_cache = GoMap (fmempty) [((0::int), (7::int))], keys = \<lparr>m_ctm = GoMap (fmempty) [(0, \<lparr>prev = NaN 0, next = NaN 0, timestamp = 5\<rparr>)], first = NaN 0, last_ctm = NaN 0\<rparr>, maxSize = 1, maxAge = 0\<rparr> (NaN 0) 5) = (0, False)
   \<and> SetLRW \<lparr>m_cache = GoMap (fmempty) [((0::int), (7::int))], keys = \<lparr>m_ctm = GoMap (fmempty) [(0, \<lparr>prev = NaN 0, next = NaN 0, timestamp = 5\<rparr>)], first = NaN 0, last_ctm = NaN 0\<rparr>, maxSize = 1, maxAge = 0\<rparr> (Key 0) 8 6 =
       Some \<lparr>m_cache = GoMap (fmempty) [((0::int), (7::int))], keys = \<lparr>m_ctm = GoMap (fmempty) [(0, \<lparr>prev = NaN 0, next = NaN 0, timestamp = 5\<rparr>), (0, \<lparr>prev = Key 0, next = Key 0, timestamp = 0\<rparr>)], first = Key 0, last_ctm = Key 0\<rparr>, maxSize = 1, maxAge = 0\<rparr>
   \<and> fst (GetLRW \<lparr>m_cache = GoMap (fmempty) [((0::int), (7::int))], keys = \<lparr>m_ctm = GoMap (fmempty) [(0, \<lparr>prev = NaN 0, next = NaN 0, timestamp = 5\<rparr>), (0, \<lparr>prev = Key 0, next = Key 0, timestamp = 0\<rparr>)], first = Key 0, last_ctm = Key 0\<rparr>, maxSize = 1, maxAge = 0\<rparr> (Key 0)) = (0, False)
   \<and> SetLRU \<lparr>m_cache = GoMap (fmempty) [((0::int), (7::int))], keys = \<lparr>m_ctm = GoMap (fmempty) [(0, \<lparr>prev = NaN 0, next = NaN 0, timestamp = 5\<rparr>)], first = NaN 0, last_ctm = NaN 0\<rparr>, maxSize = 1, maxAge = 0\<rparr> (Key 0) 8 6 =
       Some \<lparr>m_cache = GoMap (fmempty) [((0::int), (7::int))], keys = \<lparr>m_ctm = GoMap (fmempty) [(0, \<lparr>prev = NaN 0, next = NaN 0, timestamp = 5\<rparr>), (0, \<lparr>prev = Key 0, next = Key 0, timestamp = 0\<rparr>)], first = Key 0, last_ctm = Key 0\<rparr>, maxSize = 1, maxAge = 0\<rparr>
   \<and> fst (GetLRU \<lparr>m_cache = GoMap (fmempty) [((0::int), (7::int))], keys = \<lparr>m_ctm = GoMap (fmempty) [(0, \<lparr>prev = NaN 0, next = NaN 0, timestamp = 5\<rparr>), (0, \<lparr>prev = Key 0, next = Key 0, timestamp = 0\<rparr>)], first = Key 0, last_ctm = Key 0\<rparr>, maxSize = 1, maxAge = 0\<rparr> (Key 0) 6) = (0, False)"
proof -
  have n: "NewLRWCache (Key (0::int)) (0::int) 1 0 = Inr \<lparr>m_cache = (makeMap :: (int, int) gomap), keys = newCacheTimeMap (Key (0::int)), maxSize = 1, maxAge = 0\<rparr>"
    "NewLRUCache (Key (0::int)) (0::int) 1 0 = Inr \<lparr>m_cache = (makeMap :: (int, int) gomap), keys = newCacheTimeMap (Key (0::int)), maxSize = 1, maxAge = 0\<rparr>"
    by (simp_all add: NewLRWCache_def NewLRUCache_def)
  have a1: "SetLRW \<lparr>m_cache = (makeMap :: (int, int) gomap), keys = newCacheTimeMap (Key (0::int)), maxSize = 1, maxAge = 0\<rparr> (NaN 0) 7 5 =
       Some \<lparr>m_cache = GoMap (fmempty) [((0::int), (7::int))], keys = \<lparr>m_ctm = GoMap (fmempty) [(0, \<lparr>prev = NaN 0, next = NaN 0, timestamp = 5\<rparr>)], first = NaN 0, last_ctm = NaN 0\<rparr>, maxSize = 1, maxAge = 0\<rparr>"
    by (simp add: cache_evals)
  have a2: "fst (GetLRW \<lparr>m_cache = GoMap (fmempty) [((0::int), (7::int))], keys = \<lparr>m_ctm = GoMap (fmempty) [(0, \<lparr>prev = NaN 0, next = NaN 0, timestamp = 5\<rparr>)], first = NaN 0, last_ctm = NaN 0\<rparr>, maxSize = 1, maxAge = 0\<rparr> (NaN 0)) = (0, False)"
    by (simp add: GetLRW_def)
  have a3: "SetLRU \<lparr>m_cache = (makeMap :: (int, int) gomap), keys = newCacheTimeMap (Key (0::int)), maxSize = 1, maxAge = 0\<rparr> (NaN 0) 7 5 =
       Some \<lparr>m_cache = GoMap (fmempty) [((0::int), (7::int))], keys = \<lparr>m_ctm = GoMap (fmempty) [(0, \<lparr>prev = NaN 0, next = NaN 0, timestamp = 5\<rparr>)], first = NaN 0, last_ctm = NaN 0\<rparr>, maxSize = 1, maxAge = 0\<rparr>"
    by (simp add: cache_evals)
  have a4: "fst (GetLRU \<lparr>m_cache = GoMap (fmempty) [((0::int), (7::int))], keys = \<lparr>m_ctm = GoMap (fmempty) [(0, \<lparr>prev = NaN 0, next = NaN 0, timestamp = 5\<rparr>)], first = NaN 0, last_ctm = NaN 0\<rparr>, maxSize = 1, maxAge = 0\<rparr> (NaN 0) 5) = (0, False)"
    by (simp add: GetLRU_def)
  have b1: "SetLRW \<lparr>m_cache = GoMap (fmempty) [((0::int), (7::int))], keys = \<lparr>m_ctm = GoMap (fmempty) [(0, \<lparr>prev = NaN 0, next = NaN 0, timestamp = 5\<rparr>)], first = NaN 0, last_ctm = NaN 0\<rparr>, maxSize = 1, maxAge = 0\<rparr> (Key 0) 8 6 =
       Some \<lparr>m_cache = GoMap (fmempty) [((0::int), (7::int))], keys = \<lparr>m_ctm = GoMap (fmempty) [(0, \<lparr>prev = NaN 0, next = NaN 0, timestamp = 5\<rparr>), (0, \<lparr>prev = Key 0, next = Key 0, timestamp = 0\<rparr>)], first = Key 0, last_ctm = Key 0\<rparr>, maxSize = 1, maxAge = 0\<rparr>"
    by (simp add: cache_evals fmdrop_fmupd)
  have b2: "fst (GetLRW \<lparr>m_cache = GoMap (fmempty) [((0::int), (7::int))], keys = \<lparr>m_ctm = GoMap (fmempty) [(0, \<lparr>prev = NaN 0, next = NaN 0, timestamp = 5\<rparr>), (0, \<lparr>prev = Key 0, next = Key 0, timestamp = 0\<rparr>)], first = Key 0, last_ctm = Key 0\<rparr>, maxSize = 1, maxAge = 0\<rparr> (Key 0)) = (0, False)"
    by (simp add: GetLRW_def)
  have b3: "SetLRU \<lparr>m_cache = GoMap (fmempty) [((0::int), (7::int))], keys = \<lparr>m_ctm = GoMap (fmempty) [(0, \<lparr>prev = NaN 0, next = NaN 0, timestamp = 5\<rparr>)], first = NaN 0, last_ctm = NaN 0\<rparr>, maxSize = 1, maxAge = 0\<rparr> (Key 0) 8 6 =
       Some \<lparr>m_cache = GoMap (fmempty) [((0::int), (7::int))], keys = \<lparr>m_ctm = GoMap (fmempty) [(0, \<lparr>prev = NaN 0, next = NaN 0, timestamp = 5\<rparr>), (0, \<lparr>prev = Key 0, next = Key 0, timestamp = 0\<rparr>)], first = Key 0, last_ctm = Key 0\<rparr>, maxSize = 1, maxAge = 0\<rparr>"
    by (simp add: cache_evals fmdrop_fmupd)
  have b4: "fst (GetLRU \<lparr>m_cache = GoMap (fmempty) [((0::int), (7::int))], keys = \<lparr>m_ctm = GoMap (fmempty) [(0, \<lparr>prev = NaN 0, next = NaN 0, timestamp = 5\<rparr>), (0, \<lparr>prev = Key 0, next = Key 0, timestamp = 0\<rparr>)], first = Key 0, last_ctm = Key 0\<rparr>, maxSize = 1, maxAge = 0\<rparr> (Key 0) 6) = (0, False)"
    by (simp add: GetLRU_def)
  show ?thesis using n a1 a2 a3 a4 b1 b2 b3 b4 by (intro conjI)
qed

end
